theory Spec2Isabelle
  imports Main "HOL-Library.Word"
begin

section \<open>JavaScript values\<close>

text \<open>
  A JavaScript string is a sequence of UTF-16 code units. String literals of the source
  are ASCII and are written \<open>lit ''...''\<close>.
\<close>

type_synonym jschar = "16 word"
type_synonym jsstring = "jschar list"

definition lit :: "string \<Rightarrow> jsstring" where
  "lit s = map of_char s"

text \<open>
  \<open>String.prototype.trim\<close> removes white space and line terminators from both ends:
  TAB, LF, VT, FF, CR, SP, NBSP, U+1680, U+2000..U+200A, U+2028, U+2029, U+202F, U+205F,
  U+3000 and U+FEFF.
\<close>

definition isWhiteSpace :: "jschar \<Rightarrow> bool" where
  "isWhiteSpace c \<longleftrightarrow>
     c = 0x9 \<or> c = 0xA \<or> c = 0xB \<or> c = 0xC \<or> c = 0xD \<or> c = 0x20 \<or> c = 0xA0 \<or>
     c = 0x1680 \<or> (0x2000 \<le> c \<and> c \<le> 0x200A) \<or> c = 0x2028 \<or> c = 0x2029 \<or>
     c = 0x202F \<or> c = 0x205F \<or> c = 0x3000 \<or> c = 0xFEFF"

definition trim :: "jsstring \<Rightarrow> jsstring" where
  "trim s = rev (dropWhile isWhiteSpace (rev (dropWhile isWhiteSpace s)))"

text \<open>
  The values that cross the boundary of an operation (\<open>JsonMap\<close>, \<open>unknown\<close>): the
  JSON-compatible values and \<open>undefined\<close>. A number is an integer that a JavaScript
  number holds exactly, from \<open>- 2 ^ 53\<close> up to \<open>2 ^ 53 - 1\<close>: a signed word of 54 bits,
  read with \<open>sint\<close>. An object is the list of its own properties in insertion order; a
  property is looked up with \<open>map_of\<close>.
\<close>

datatype json =
    JUndefined
  | JNull
  | JBool bool
  | JNum "54 word"
  | JStr jsstring
  | JArr "json list"
  | JObj "(jsstring \<times> json) list"

text \<open>
  What an operation can throw or reject with: an \<open>Error\<close> object carrying its
  \<open>message\<close> (a string), or any other value.
\<close>

datatype thrown = JsError jsstring | NonError json

text \<open>\<open>Array.isArray(v)\<close>, \<open>v[0]\<close> on an array, \<open>v?.k\<close> and \<open>Boolean(v)\<close>.\<close>

fun isArray :: "json \<Rightarrow> bool" where
  "isArray (JArr xs) = True"
| "isArray v = False"

fun elem0 :: "json \<Rightarrow> json" where
  "elem0 (JArr (x # xs)) = x"
| "elem0 v = JUndefined"

text \<open>
  Optional member access \<open>v?.k\<close> for a key that no array, string, number or boolean has
  (the source reads \<open>avail\<close> only): \<open>undefined\<close> unless \<open>v\<close> is an object with that
  property.
\<close>

fun optMember :: "json \<Rightarrow> jsstring \<Rightarrow> json" where
  "optMember (JObj fs) k = (case map_of fs k of None \<Rightarrow> JUndefined | Some v \<Rightarrow> v)"
| "optMember v k = JUndefined"

fun Boolean :: "json \<Rightarrow> bool" where
  "Boolean JUndefined = False"
| "Boolean JNull = False"
| "Boolean (JBool b) = b"
| "Boolean (JNum n) = (n \<noteq> 0)"
| "Boolean (JStr s) = (s \<noteq> [])"
| "Boolean (JArr xs) = True"
| "Boolean (JObj fs) = True"

text \<open>
  \<open>String(v)\<close>. A number gives its decimal digits. An array gives its elements
  converted from left to right and joined by commas, \<open>null\<close> and \<open>undefined\<close> counting
  as the empty string. An object is converted by its \<open>toString\<close> method: the inherited
  one answers \<open>[object Object]\<close>, but an object with an own property named
  \<open>toString\<close> (never callable in a JSON-compatible value) has no usable method, the
  inherited \<open>valueOf\<close> returns the object itself, and the conversion throws a
  \<open>TypeError\<close>. The message of that error is the one of Node.
\<close>

definition typeError :: thrown where
  "typeError = JsError (lit ''Cannot convert object to primitive value'')"

fun showNat :: "nat \<Rightarrow> jsstring" where
  "showNat n =
     (if n < 10 then [of_nat (48 + n)] else showNat (n div 10) @ [of_nat (48 + n mod 10)])"

fun joinComma :: "jsstring list \<Rightarrow> jsstring" where
  "joinComma [] = []"
| "joinComma [s] = s"
| "joinComma (s # t # ss) = s @ lit '','' @ joinComma (t # ss)"

fun allOrThrow :: "(thrown + 'a) list \<Rightarrow> thrown + 'a list" where
  "allOrThrow [] = Inr []"
| "allOrThrow (Inl e # rs) = Inl e"
| "allOrThrow (Inr x # rs) = (case allOrThrow rs of Inl e \<Rightarrow> Inl e | Inr xs \<Rightarrow> Inr (x # xs))"

fun toString :: "json \<Rightarrow> thrown + jsstring" where
  "toString JUndefined = Inr (lit ''undefined'')"
| "toString JNull = Inr (lit ''null'')"
| "toString (JBool b) = Inr (if b then lit ''true'' else lit ''false'')"
| "toString (JNum n) =
     Inr (if sint n < 0 then lit ''-'' @ showNat (nat (- sint n)) else showNat (nat (sint n)))"
| "toString (JStr s) = Inr s"
| "toString (JArr xs) =
     (case allOrThrow (map (\<lambda>x. if x = JUndefined \<or> x = JNull then Inr [] else toString x) xs) of
        Inl e \<Rightarrow> Inl e
      | Inr ss \<Rightarrow> Inr (joinComma ss))"
| "toString (JObj fs) =
     (if map_of fs (lit ''toString'') \<noteq> None then Inl typeError
      else Inr (lit ''[object Object]''))"

section \<open>Operations and the world they act on\<close>

text \<open>
  \<open>ExternalBoundTool\<close>: a name and an asynchronous \<open>run\<close>. An operation acts on the
  remote systems, whose state is \<open>'w\<close>. Awaiting \<open>run\<close> gives three things: the value
  the promise is fulfilled with (\<open>Inr\<close>) or rejected with (\<open>Inl\<close>); what the operation
  did to the array it was handed by reference, if it was handed one (\<open>None\<close>: left
  as it was, \<open>Some xs\<close>: its elements are now \<open>xs\<close>); and the new remote state. An
  operation is taken to settle.
\<close>

record 'w ExternalBoundTool =
  name :: jsstring
  run :: "json \<Rightarrow> 'w \<Rightarrow> (thrown + json) \<times> json list option \<times> 'w"

text \<open>
  The world of one workflow run: the remote state, and the record of every invocation
  of an operation, in order: its name, the parameters passed, how it settled and, when
  the call handed over an array by reference, the elements of that array after the
  call.
\<close>

record invocation =
  tool :: jsstring
  args :: json
  outcome :: "thrown + json"
  shared_after :: "json list option"

record 'w world =
  remote :: 'w
  invoked :: "invocation list"

text \<open>
  \<open>await tool.run(args)\<close>, for arguments built from strings, numbers and booleans
  only (\<open>await_run\<close>: nothing of the caller's can change), and for arguments that hold
  the caller's array \<open>arr\<close> itself (\<open>await_run_sharing\<close>: the call also gives the
  elements of the array afterwards).
\<close>

definition await_run :: "'w ExternalBoundTool \<Rightarrow> json \<Rightarrow> 'w world \<Rightarrow> (thrown + json) \<times> 'w world" where
  "await_run t params st =
     (case run t params (remote st) of
        (out, m, w') \<Rightarrow>
          (out, \<lparr>remote = w',
                 invoked = invoked st @
                   [\<lparr>tool = name t, args = params, outcome = out, shared_after = None\<rparr>]\<rparr>))"

definition await_run_sharing ::
  "'w ExternalBoundTool \<Rightarrow> json \<Rightarrow> json list \<Rightarrow> 'w world \<Rightarrow>
     ((thrown + json) \<times> json list) \<times> 'w world" where
  "await_run_sharing t params arr st =
     (case run t params (remote st) of
        (out, m, w') \<Rightarrow>
          (let arr' = (case m of None \<Rightarrow> arr | Some ys \<Rightarrow> ys)
           in ((out, arr'),
               \<lparr>remote = w',
                invoked = invoked st @
                  [\<lparr>tool = name t, args = params, outcome = out, shared_after = Some arr'\<rparr>]\<rparr>)))"

section \<open>Provisioning parameters and results\<close>

record ProvisionDomainHostingParams =
  domain :: jsstring
  nameservers :: "jsstring list"
  serverIp :: jsstring
  clientName :: jsstring
  clientEmail :: jsstring
  createMail :: "bool option"
  createDb :: "bool option"
  serverId :: "54 word option"
  registrationPeriod :: "54 word option"
  contacts :: "(jsstring \<times> json) list option"
  skipRegistration :: "bool option"

datatype status = Ok | Error | Skipped

record ProvisioningStep =
  step :: jsstring
  status :: status
  data :: "json option"
  error :: "jsstring option"

record Created =
  domainRegistered :: "bool option"
  nameserversConfigured :: "bool option"
  hostingProvisioned :: "bool option"
  ispProvisionResult :: "json option"

record ProvisioningResult =
  ok :: bool
  domain :: jsstring
  steps :: "ProvisioningStep list"
  created :: Created

section \<open>Helpers\<close>

definition findTool :: "'w ExternalBoundTool list \<Rightarrow> jsstring \<Rightarrow> thrown + 'w ExternalBoundTool" where
  "findTool tools nm =
     (case find (\<lambda>t. name t = nm) tools of
        None \<Rightarrow> Inl (JsError (lit ''Required tool \"'' @ nm @ lit ''\" not found in provided toolset''))
      | Some t \<Rightarrow> Inr t)"

text \<open>\<open>errorMessage\<close> calls \<open>String\<close> on what is not an \<open>Error\<close>, and so can throw.\<close>

definition errorMessage :: "thrown \<Rightarrow> thrown + jsstring" where
  "errorMessage err = (case err of JsError m \<Rightarrow> Inr m | NonError v \<Rightarrow> toString v)"

text \<open>
  The two statements that open each \<open>try\<close> block: resolve the operation by name and
  await its \<open>run\<close>. \<open>Inl\<close> is the value that reaches the \<open>catch\<close> clause.
\<close>

definition findTool_run ::
  "'w ExternalBoundTool list \<Rightarrow> jsstring \<Rightarrow> json \<Rightarrow> 'w world \<Rightarrow> (thrown + json) \<times> 'w world" where
  "findTool_run tools nm params st =
     (case findTool tools nm of
        Inl err \<Rightarrow> (Inl err, st)
      | Inr t \<Rightarrow> await_run t params st)"

definition findTool_run_sharing ::
  "'w ExternalBoundTool list \<Rightarrow> jsstring \<Rightarrow> json \<Rightarrow> json list \<Rightarrow> 'w world \<Rightarrow>
     ((thrown + json) \<times> json list) \<times> 'w world" where
  "findTool_run_sharing tools nm params arr st =
     (case findTool tools nm of
        Inl err \<Rightarrow> ((Inl err, arr), st)
      | Inr t \<Rightarrow> await_run_sharing t params arr st)"

section \<open>Main workflow\<close>

text \<open>
  \<open>provisionDomainWithHosting\<close> is one function with four \<open>try\<close> blocks whose
  \<open>catch\<close> clauses return early. Each stage is a definition of its own here, and
  completes in one of three ways: it throws out of its \<open>catch\<close> clause, where
  \<open>errorMessage\<close> runs under no \<open>try\<close> (\<open>Throws\<close>); it returns a result
  (\<open>Returns\<close>); or control falls through to the next stage with the local variables
  the stage leaves behind (\<open>Continues\<close>).
\<close>

datatype 'a completion = Throws thrown | Returns ProvisioningResult | Continues 'a

text \<open>
  Step 1 - Check domain availability (lines 119 to 129). How the stage reads the result
  of the operation (lines 123 and 124) is \<open>readAvailability\<close>.
\<close>

definition readAvailability :: "json \<Rightarrow> bool" where
  "readAvailability raw =
     (let checkResult = (if isArray raw then elem0 raw else raw)
      in Boolean (optMember checkResult (lit ''avail'')))"

definition step1_check ::
  "'w ExternalBoundTool list \<Rightarrow> jsstring \<Rightarrow> ProvisioningStep list \<Rightarrow> Created \<Rightarrow> 'w world \<Rightarrow>
     (bool \<times> ProvisioningStep list) completion \<times> 'w world" where
  "step1_check inwxTools domain' steps0 created0 st =
     (case findTool_run inwxTools (lit ''inwx_domain_check'') (JObj [(lit ''domain'', JStr domain')]) st of
        (Inr raw, st') \<Rightarrow>
          (let domainAvailable = readAvailability raw
           in (Continues (domainAvailable,
                    steps0 @ [\<lparr>step = lit ''domain_check'', status = Ok,
                               data = Some (JObj [(lit ''domain'', JStr domain'),
                                                  (lit ''available'', JBool domainAvailable)]),
                               error = None\<rparr>]),
               st'))
      | (Inl err, st') \<Rightarrow>
          (case errorMessage err of
             Inl e \<Rightarrow> (Throws e, st')
           | Inr msg \<Rightarrow>
               (Returns \<lparr>ok = False, domain = domain',
                         steps = steps0 @ [\<lparr>step = lit ''domain_check'', status = Error,
                                            data = None, error = Some msg\<rparr>],
                         created = created0\<rparr>,
                st')))"

text \<open>
  Step 2 - Register domain (lines 132 to 153). The operation is handed the array
  \<open>params.nameservers\<close> itself (line 141), whose elements are \<open>nameservers'\<close> when
  the stage begins; what they are afterwards is among the variables the stage leaves
  behind. The \<open>contacts\<close> object is handed over too, and never read again.
\<close>

definition step2_register ::
  "'w ExternalBoundTool list \<Rightarrow> ProvisionDomainHostingParams \<Rightarrow> jsstring \<Rightarrow> bool \<Rightarrow> json list \<Rightarrow>
     ProvisioningStep list \<Rightarrow> Created \<Rightarrow> 'w world \<Rightarrow>
     (ProvisioningStep list \<times> Created \<times> json list) completion \<times> 'w world" where
  "step2_register inwxTools params domain' domainAvailable nameservers' steps1 created1 st =
     (if skipRegistration params = Some True then
        (Continues (steps1 @ [\<lparr>step = lit ''domain_register'', status = Skipped,
                          data = Some (JObj [(lit ''reason'', JStr (lit ''skipRegistration=true''))]),
                          error = None\<rparr>],
              created1\<lparr>domainRegistered := Some False\<rparr>, nameservers'),
         st)
      else if domainAvailable then
        (case findTool_run_sharing inwxTools (lit ''inwx_domain_register'')
                (JObj [(lit ''domain'', JStr domain'),
                       (lit ''period'', JNum (case registrationPeriod params of None \<Rightarrow> 1 | Some n \<Rightarrow> n)),
                       (lit ''ns'', JArr nameservers'),
                       (lit ''contacts'', (case contacts params of None \<Rightarrow> JUndefined | Some c \<Rightarrow> JObj c))])
                nameservers' st of
           ((Inr regResult, nameservers''), st') \<Rightarrow>
             (Continues (steps1 @ [\<lparr>step = lit ''domain_register'', status = Ok,
                               data = Some regResult, error = None\<rparr>],
                   created1\<lparr>domainRegistered := Some True\<rparr>, nameservers''),
              st')
         | ((Inl err, nameservers''), st') \<Rightarrow>
             (case errorMessage err of
                Inl e \<Rightarrow> (Throws e, st')
              | Inr msg \<Rightarrow>
                  (Returns \<lparr>ok = False, domain = domain',
                            steps = steps1 @ [\<lparr>step = lit ''domain_register'', status = Error,
                                               data = None, error = Some msg\<rparr>],
                            created = created1\<rparr>,
                   st')))
      else
        (Continues (steps1 @ [\<lparr>step = lit ''domain_register'', status = Skipped,
                          data = Some (JObj [(lit ''reason'', JStr (lit ''domain not available''))]),
                          error = None\<rparr>],
              created1\<lparr>domainRegistered := Some False\<rparr>, nameservers'),
         st))"

text \<open>
  Step 3 - Set nameservers (lines 156 to 168). Line 156 reads the length of
  \<open>params.nameservers\<close> as the array is now, after stage 2. The operation is handed
  the same array (line 159); nothing reads it afterwards.
\<close>

definition step3_nameservers ::
  "'w ExternalBoundTool list \<Rightarrow> jsstring \<Rightarrow> json list \<Rightarrow>
     ProvisioningStep list \<Rightarrow> Created \<Rightarrow> 'w world \<Rightarrow>
     (ProvisioningStep list \<times> Created) completion \<times> 'w world" where
  "step3_nameservers inwxTools domain' nameservers' steps2 created2 st =
     (if length nameservers' > 0 then
        (case findTool_run_sharing inwxTools (lit ''inwx_nameserver_set'')
                (JObj [(lit ''domain'', JStr domain'), (lit ''ns'', JArr nameservers')])
                nameservers' st of
           ((Inr nsResult, nameservers''), st') \<Rightarrow>
             (Continues (steps2 @ [\<lparr>step = lit ''nameserver_set'', status = Ok,
                               data = Some nsResult, error = None\<rparr>],
                   created2\<lparr>nameserversConfigured := Some True\<rparr>),
              st')
         | ((Inl err, nameservers''), st') \<Rightarrow>
             (case errorMessage err of
                Inl e \<Rightarrow> (Throws e, st')
              | Inr msg \<Rightarrow>
                  (Returns \<lparr>ok = False, domain = domain',
                            steps = steps2 @ [\<lparr>step = lit ''nameserver_set'', status = Error,
                                               data = None, error = Some msg\<rparr>],
                            created = created2\<rparr>,
                   st')))
      else
        (Continues (steps2 @ [\<lparr>step = lit ''nameserver_set'', status = Skipped,
                          data = Some (JObj [(lit ''reason'', JStr (lit ''no nameservers provided''))]),
                          error = None\<rparr>],
              created2),
         st))"

text \<open>
  Step 4 - Provision hosting via ISPConfig, and the final \<open>return\<close> (lines 171 to 190):
  the stage settles the promise, rejecting it (\<open>Inl\<close>) when its \<open>catch\<close> clause throws.
\<close>

definition step4_provision ::
  "'w ExternalBoundTool list \<Rightarrow> ProvisionDomainHostingParams \<Rightarrow> jsstring \<Rightarrow>
     ProvisioningStep list \<Rightarrow> Created \<Rightarrow> 'w world \<Rightarrow> (thrown + ProvisioningResult) \<times> 'w world" where
  "step4_provision ispTools params domain' steps3 created3 st =
     (case findTool_run ispTools (lit ''isp_provision_site'')
             (JObj ([(lit ''domain'', JStr domain'),
                     (lit ''clientName'', JStr (clientName params)),
                     (lit ''clientEmail'', JStr (clientEmail params)),
                     (lit ''serverIp'', JStr (serverIp params)),
                     (lit ''createMail'', JBool (case createMail params of None \<Rightarrow> True | Some b \<Rightarrow> b)),
                     (lit ''createDb'', JBool (case createDb params of None \<Rightarrow> True | Some b \<Rightarrow> b))]
                    @ (case serverId params of None \<Rightarrow> [] | Some n \<Rightarrow> [(lit ''serverId'', JNum n)])))
             st of
        (Inr ispResult, st') \<Rightarrow>
          (Inr \<lparr>ok = True, domain = domain',
                steps = steps3 @ [\<lparr>step = lit ''isp_provision'', status = Ok,
                                   data = Some ispResult, error = None\<rparr>],
                created = created3\<lparr>hostingProvisioned := Some True,
                                   ispProvisionResult := Some ispResult\<rparr>\<rparr>,
           st')
      | (Inl err, st') \<Rightarrow>
          (case errorMessage err of
             Inl e \<Rightarrow> (Inl e, st')
           | Inr msg \<Rightarrow>
               (Inr \<lparr>ok = False, domain = domain',
                     steps = steps3 @ [\<lparr>step = lit ''isp_provision'', status = Error,
                                        data = None, error = Some msg\<rparr>],
                     created = created3\<rparr>,
                st')))"

text \<open>
  The whole function. Its value is how the returned promise settles (\<open>Inr\<close>: fulfilled
  with a result, \<open>Inl\<close>: rejected) and the world after the run. The elements of
  \<open>params.nameservers\<close> are those the caller gave until an operation changes them.
\<close>

definition provisionDomainWithHosting ::
  "'w ExternalBoundTool list \<Rightarrow> 'w ExternalBoundTool list \<Rightarrow> ProvisionDomainHostingParams \<Rightarrow>
     'w world \<Rightarrow> (thrown + ProvisioningResult) \<times> 'w world" where
  "provisionDomainWithHosting inwxTools ispTools params st =
     (let steps0 = [];
          created0 = \<lparr>domainRegistered = None, nameserversConfigured = None,
                      hostingProvisioned = None, ispProvisionResult = None\<rparr>;
          domain' = trim (ProvisionDomainHostingParams.domain params);
          nameservers0 = map JStr (nameservers params)
      in if domain' = [] then
           (Inr \<lparr>ok = False, domain = lit '''',
                 steps = [\<lparr>step = lit ''validate'', status = Error, data = None,
                           error = Some (lit ''domain is required'')\<rparr>],
                 created = created0\<rparr>,
            st)
         else
           (case step1_check inwxTools domain' steps0 created0 st of
              (Throws e, st1) \<Rightarrow> (Inl e, st1)
            | (Returns ret, st1) \<Rightarrow> (Inr ret, st1)
            | (Continues (domainAvailable, steps1), st1) \<Rightarrow>
                (case step2_register inwxTools params domain' domainAvailable nameservers0
                        steps1 created0 st1 of
                   (Throws e, st2) \<Rightarrow> (Inl e, st2)
                 | (Returns ret, st2) \<Rightarrow> (Inr ret, st2)
                 | (Continues (steps2, created2, nameservers2), st2) \<Rightarrow>
                     (case step3_nameservers inwxTools domain' nameservers2 steps2 created2 st2 of
                        (Throws e, st3) \<Rightarrow> (Inl e, st3)
                      | (Returns ret, st3) \<Rightarrow> (Inr ret, st3)
                      | (Continues (steps3, created3), st3) \<Rightarrow>
                          step4_provision ispTools params domain' steps3 created3 st3))))"

section \<open>Permission guard\<close>

text \<open>
  Modelled from the spec: the permission guard of \<open>src/guards.ts\<close>, which is not among
  the sources; only the tests that call guarded operations are. The spec (section 4.1)
  gives two rules, each rejecting the call before invocation with an error that
  identifies the operation and the violated rule, and gives no precedence between the
  two, so the rejection carries every violated rule. The classification of an
  operation as read or write is supplied by the registry builder.
\<close>

datatype opClass = ReadOp | WriteOp

record PermissionPolicy =
  readOnly :: bool
  allowList :: "jsstring set"

record PolicyViolation =
  operation :: jsstring
  violated :: "jsstring list"

definition violatedRules :: "PermissionPolicy \<Rightarrow> jsstring \<Rightarrow> opClass \<Rightarrow> jsstring list" where
  "violatedRules pol nm cls =
     (if readOnly pol \<and> cls = WriteOp then [lit ''readOnly''] else []) @
     (if allowList pol \<noteq> {} \<and> nm \<notin> allowList pol then [lit ''allowedOperations''] else [])"

definition guard ::
  "PermissionPolicy \<Rightarrow> jsstring \<Rightarrow> opClass \<Rightarrow> (json \<Rightarrow> 'w \<Rightarrow> (thrown + json) \<times> 'w) \<Rightarrow>
     json \<Rightarrow> 'w \<Rightarrow> (PolicyViolation + (thrown + json)) \<times> 'w" where
  "guard pol nm cls invoke params w =
     (case violatedRules pol nm cls of
        [] \<Rightarrow> (case invoke params w of (out, w') \<Rightarrow> (Inr out, w'))
      | r # rs \<Rightarrow> (Inl \<lparr>operation = nm, violated = r # rs\<rparr>, w))"

section \<open>Vocabulary of the properties\<close>

text \<open>The invocations made between two worlds of one run.\<close>

definition calls_since :: "'w world \<Rightarrow> 'w world \<Rightarrow> invocation list" where
  "calls_since st st' = drop (length (invoked st)) (invoked st')"

text \<open>
  What the workflow gets back from an invocation: how it settled and, when an array
  was handed over, the elements of the array afterwards.
\<close>

definition response :: "invocation \<Rightarrow> (thrown + json) \<times> json list option" where
  "response c = (outcome c, shared_after c)"

text \<open>
  The run was rejected with \<open>e\<close> by a catch clause: an invocation threw a value whose
  conversion to a message threw \<open>e\<close>.
\<close>

definition rejected_by :: "'w world \<Rightarrow> 'w world \<Rightarrow> thrown \<Rightarrow> bool" where
  "rejected_by st st' e \<longleftrightarrow>
     (\<exists>c\<in>set (calls_since st st'). \<exists>x. outcome c = Inl x \<and> errorMessage x = Inl e)"

text \<open>A registry has an operation of a given name.\<close>

definition has_tool :: "'w ExternalBoundTool list \<Rightarrow> jsstring \<Rightarrow> bool" where
  "has_tool tools nm \<longleftrightarrow> find (\<lambda>t. name t = nm) tools \<noteq> None"

text \<open>
  The shape of a returned ledger: no step in error and \<open>ok\<close>, or a last step in error
  after steps that are not, and \<open>ok\<close> false.
\<close>

definition noError :: "ProvisioningStep list \<Rightarrow> bool" where
  "noError xs \<longleftrightarrow> (\<forall>x\<in>set xs. status x \<noteq> Error)"

definition wellformed :: "ProvisioningResult \<Rightarrow> bool" where
  "wellformed r \<longleftrightarrow>
     (ok r \<and> noError (steps r)) \<or>
     (\<not> ok r \<and> (\<exists>pre e. steps r = pre @ [e] \<and> noError pre \<and> status e = Error))"

text \<open>
  Shorthand for the object literals of the source: the parameter records passed to the
  four operations and the three kinds of step.
\<close>

abbreviation checkArgs :: "jsstring \<Rightarrow> json" where
  "checkArgs d \<equiv> JObj [(lit ''domain'', JStr d)]"

abbreviation registerArgs :: "ProvisionDomainHostingParams \<Rightarrow> jsstring \<Rightarrow> json list \<Rightarrow> json" where
  "registerArgs p d ns \<equiv>
     JObj [(lit ''domain'', JStr d),
           (lit ''period'', JNum (case registrationPeriod p of None \<Rightarrow> 1 | Some n \<Rightarrow> n)),
           (lit ''ns'', JArr ns),
           (lit ''contacts'', (case contacts p of None \<Rightarrow> JUndefined | Some c \<Rightarrow> JObj c))]"

abbreviation nameserverArgs :: "jsstring \<Rightarrow> json list \<Rightarrow> json" where
  "nameserverArgs d ns \<equiv> JObj [(lit ''domain'', JStr d), (lit ''ns'', JArr ns)]"

abbreviation provisionArgs :: "ProvisionDomainHostingParams \<Rightarrow> jsstring \<Rightarrow> json" where
  "provisionArgs p d \<equiv>
     JObj ([(lit ''domain'', JStr d),
            (lit ''clientName'', JStr (clientName p)),
            (lit ''clientEmail'', JStr (clientEmail p)),
            (lit ''serverIp'', JStr (serverIp p)),
            (lit ''createMail'', JBool (case createMail p of None \<Rightarrow> True | Some b \<Rightarrow> b)),
            (lit ''createDb'', JBool (case createDb p of None \<Rightarrow> True | Some b \<Rightarrow> b))]
           @ (case serverId p of None \<Rightarrow> [] | Some n \<Rightarrow> [(lit ''serverId'', JNum n)]))"

abbreviation okStep :: "string \<Rightarrow> json \<Rightarrow> ProvisioningStep" where
  "okStep sn v \<equiv> \<lparr>step = lit sn, status = Ok, data = Some v, error = None\<rparr>"

abbreviation errorStep :: "string \<Rightarrow> jsstring \<Rightarrow> ProvisioningStep" where
  "errorStep sn msg \<equiv> \<lparr>step = lit sn, status = Error, data = None, error = Some msg\<rparr>"

abbreviation skippedStep :: "string \<Rightarrow> string \<Rightarrow> ProvisioningStep" where
  "skippedStep sn reason \<equiv>
     \<lparr>step = lit sn, status = Skipped,
      data = Some (JObj [(lit ''reason'', JStr (lit reason))]), error = None\<rparr>"

abbreviation failure :: "jsstring \<Rightarrow> ProvisioningStep list \<Rightarrow> Created \<Rightarrow> ProvisioningResult" where
  "failure d xs c \<equiv> \<lparr>ok = False, domain = d, steps = xs, created = c\<rparr>"

abbreviation notFound :: "string \<Rightarrow> jsstring" where
  "notFound nm \<equiv> lit ''Required tool \"'' @ lit nm @ lit ''\" not found in provided toolset''"

abbreviation noneCreated :: Created where
  "noneCreated \<equiv> \<lparr>domainRegistered = None, nameserversConfigured = None,
                   hostingProvisioned = None, ispProvisionResult = None\<rparr>"

abbreviation logged ::
  "'w world \<Rightarrow> 'w \<Rightarrow> string \<Rightarrow> json \<Rightarrow> thrown + json \<Rightarrow> json list option \<Rightarrow> 'w world" where
  "logged st w' nm a out arr \<equiv>
     \<lparr>remote = w',
      invoked = invoked st @ [\<lparr>tool = lit nm, args = a, outcome = out, shared_after = arr\<rparr>]\<rparr>"

text \<open>
  The rest of the run after each of the first three stages, given how the stage
  completed: the nested \<open>case\<close> expressions of \<open>provisionDomainWithHosting\<close>, one at a
  time.
\<close>

definition after_step3 ::
  "'w ExternalBoundTool list \<Rightarrow> ProvisionDomainHostingParams \<Rightarrow> jsstring \<Rightarrow>
     (ProvisioningStep list \<times> Created) completion \<times> 'w world \<Rightarrow>
     (thrown + ProvisioningResult) \<times> 'w world" where
  "after_step3 ispTools params d x =
     (case x of
        (Throws e, st3) \<Rightarrow> (Inl e, st3)
      | (Returns ret, st3) \<Rightarrow> (Inr ret, st3)
      | (Continues (steps3, created3), st3) \<Rightarrow>
          step4_provision ispTools params d steps3 created3 st3)"

definition after_step2 ::
  "'w ExternalBoundTool list \<Rightarrow> 'w ExternalBoundTool list \<Rightarrow> ProvisionDomainHostingParams \<Rightarrow>
     jsstring \<Rightarrow> (ProvisioningStep list \<times> Created \<times> json list) completion \<times> 'w world \<Rightarrow>
     (thrown + ProvisioningResult) \<times> 'w world" where
  "after_step2 inwxTools ispTools params d x =
     (case x of
        (Throws e, st2) \<Rightarrow> (Inl e, st2)
      | (Returns ret, st2) \<Rightarrow> (Inr ret, st2)
      | (Continues (steps2, created2, nameservers2), st2) \<Rightarrow>
          after_step3 ispTools params d
            (step3_nameservers inwxTools d nameservers2 steps2 created2 st2))"

definition after_step1 ::
  "'w ExternalBoundTool list \<Rightarrow> 'w ExternalBoundTool list \<Rightarrow> ProvisionDomainHostingParams \<Rightarrow>
     jsstring \<Rightarrow> (bool \<times> ProvisioningStep list) completion \<times> 'w world \<Rightarrow>
     (thrown + ProvisioningResult) \<times> 'w world" where
  "after_step1 inwxTools ispTools params d x =
     (case x of
        (Throws e, st1) \<Rightarrow> (Inl e, st1)
      | (Returns ret, st1) \<Rightarrow> (Inr ret, st1)
      | (Continues (domainAvailable, steps1), st1) \<Rightarrow>
          after_step2 inwxTools ispTools params d
            (step2_register inwxTools params d domainAvailable (map JStr (nameservers params))
               steps1 noneCreated st1))"

text \<open>The invocation record only grows.\<close>

definition grows :: "'w world \<Rightarrow> 'w world \<Rightarrow> bool" where
  "grows st st' \<longleftrightarrow> (\<exists>new. invoked st' = invoked st @ new)"

section \<open>Example registries\<close>

text \<open>
  The mocks of \<open>tests/provisioning.test.ts\<close>: an operation that returns a fixed result,
  one that throws an \<open>Error\<close>, the base parameters and the two tool sets. The remote
  state counts the calls made. Two more operations: one that rejects with a value
  that is not an \<open>Error\<close>, and one that returns a result after emptying the array it
  was handed.
\<close>

definition mockTool :: "string \<Rightarrow> json \<Rightarrow> nat ExternalBoundTool" where
  "mockTool n result = \<lparr>name = lit n, run = (\<lambda>params calls. (Inr result, None, Suc calls))\<rparr>"

definition failTool :: "string \<Rightarrow> string \<Rightarrow> nat ExternalBoundTool" where
  "failTool n msg =
     \<lparr>name = lit n, run = (\<lambda>params calls. (Inl (JsError (lit msg)), None, Suc calls))\<rparr>"

definition rejectTool :: "string \<Rightarrow> json \<Rightarrow> nat ExternalBoundTool" where
  "rejectTool n v = \<lparr>name = lit n, run = (\<lambda>params calls. (Inl (NonError v), None, Suc calls))\<rparr>"

definition emptyingTool :: "string \<Rightarrow> json \<Rightarrow> nat ExternalBoundTool" where
  "emptyingTool n result =
     \<lparr>name = lit n, run = (\<lambda>params calls. (Inr result, Some [], Suc calls))\<rparr>"

definition baseParams :: ProvisionDomainHostingParams where
  "baseParams =
     \<lparr>ProvisionDomainHostingParams.domain = lit ''example.com'',
      nameservers = [lit ''ns1.hosting.de'', lit ''ns2.hosting.de''],
      serverIp = lit ''1.2.3.4'', clientName = lit ''Acme Corp'',
      clientEmail = lit ''admin@acme.com'',
      createMail = None, createDb = None, serverId = None, registrationPeriod = None,
      contacts = None, skipRegistration = None\<rparr>"

definition checkAvail :: "bool \<Rightarrow> nat ExternalBoundTool" where
  "checkAvail b =
     mockTool ''inwx_domain_check''
       (JArr [JObj [(lit ''domain'', JStr (lit ''example.com'')), (lit ''avail'', JBool b)]])"

definition inwxToolset :: "nat ExternalBoundTool list" where
  "inwxToolset =
     [checkAvail True,
      mockTool ''inwx_domain_register'' (JObj [(lit ''domain'', JStr (lit ''example.com''))]),
      mockTool ''inwx_nameserver_set'' (JObj [])]"

definition ispToolset :: "nat ExternalBoundTool list" where
  "ispToolset = [mockTool ''isp_provision_site'' (JObj [(lit ''ok'', JBool True)])]"

definition world0 :: "nat world" where
  "world0 = \<lparr>remote = 0, invoked = []\<rparr>"

text \<open>
  A second registrar registry and a second world: the operations in another order,
  a registration that throws while fewer than five calls have been made, ten calls
  counted for each one made, and an earlier invocation already on record.
\<close>

definition inwxLater :: "nat ExternalBoundTool list" where
  "inwxLater =
     [\<lparr>name = lit ''inwx_nameserver_set'',
       run = (\<lambda>params calls. (Inr (JObj []), None, calls + 10))\<rparr>,
      \<lparr>name = lit ''inwx_domain_register'',
       run = (\<lambda>params calls. (if calls < 5 then Inl (JsError (lit ''too early''))
                                else Inr (JObj [(lit ''domain'', JStr (lit ''example.com''))]),
                               None, calls + 10))\<rparr>,
      checkAvail True]"

definition world7 :: "nat world" where
  "world7 = \<lparr>remote = 7,
             invoked = [\<lparr>tool = lit ''inwx_account_info'', args = JObj [], outcome = Inr JNull,
                         shared_after = None\<rparr>]\<rparr>"

text \<open>
  Two registries whose operations settle alike, in the same order: in the first the
  registration empties the nameserver array and the hosting operation throws, in the
  second the registration leaves the array alone and the nameserver operation throws.
\<close>

definition inwxEmptying :: "nat ExternalBoundTool list" where
  "inwxEmptying =
     [checkAvail True,
      emptyingTool ''inwx_domain_register'' (JObj []),
      mockTool ''inwx_nameserver_set'' (JObj [])]"

definition ispFailing :: "nat ExternalBoundTool list" where
  "ispFailing = [failTool ''isp_provision_site'' ''Connection refused'']"

definition inwxNsFailing :: "nat ExternalBoundTool list" where
  "inwxNsFailing =
     [checkAvail True,
      mockTool ''inwx_domain_register'' (JObj []),
      failTool ''inwx_nameserver_set'' ''Connection refused'']"

section \<open>Trimming\<close>

lemma trim_Nil_iff: "trim s = [] \<longleftrightarrow> (\<forall>c\<in>set s. isWhiteSpace c)"
proof
  assume "trim s = []"
  then have a: "\<forall>c\<in>set (dropWhile isWhiteSpace s). isWhiteSpace c"
    by (simp add: trim_def)
  show "\<forall>c\<in>set s. isWhiteSpace c"
  proof (cases "dropWhile isWhiteSpace s")
    case Nil
    then show ?thesis by simp
  next
    case (Cons x xs)
    then have "\<not> isWhiteSpace x" using hd_dropWhile[of isWhiteSpace s] by simp
    with a Cons show ?thesis by simp
  qed
next
  assume "\<forall>c\<in>set s. isWhiteSpace c"
  then show "trim s = []"
    by (auto simp: trim_def dest: set_dropWhileD)
qed

section \<open>The invocation record\<close>

lemma calls_since_refl: "calls_since st st = []"
  by (simp add: calls_since_def)

lemma calls_since_logged:
  "calls_since st (logged st w nm a out arr) =
     [\<lparr>tool = lit nm, args = a, outcome = out, shared_after = arr\<rparr>]"
  by (simp add: calls_since_def)

lemma grows_refl: "grows st st"
  by (simp add: grows_def)

lemma grows_logged: "grows st (logged st w nm a out arr)"
  by (simp add: grows_def)

lemma grows_trans: "grows a b \<Longrightarrow> grows b c \<Longrightarrow> grows a c"
  by (auto simp: grows_def)

lemma calls_since_split:
  "grows a b \<Longrightarrow> grows b c \<Longrightarrow> calls_since a c = calls_since a b @ calls_since b c"
  by (auto simp: grows_def calls_since_def)

lemma calls_since_mono:
  assumes "grows st a" "grows a b" "grows b st'"
  shows "set (calls_since a b) \<subseteq> set (calls_since st st')"
proof -
  from assms have "grows a st'" by (blast intro: grows_trans)
  with assms have "calls_since st st' = calls_since st a @ calls_since a b @ calls_since b st'"
    by (simp add: calls_since_split)
  then show ?thesis by auto
qed

lemma lit_names_distinct:
  "lit ''inwx_nameserver_set'' \<noteq> lit ''inwx_domain_register''"
  "lit ''isp_provision_site'' \<noteq> lit ''inwx_domain_register''"
  "lit ''inwx_domain_check'' \<noteq> lit ''inwx_domain_register''"
  "lit ''inwx_domain_register'' \<noteq> lit ''inwx_nameserver_set''"
  "lit ''inwx_domain_register'' \<noteq> lit ''isp_provision_site''"
  "lit ''inwx_domain_register'' \<noteq> lit ''inwx_domain_check''"
  by (simp_all add: lit_def)

section \<open>Resolving and invoking an operation\<close>

lemma findTool_run_cases:
  assumes "findTool_run tools nm params st = (out, st')"
  obtains (missing) "\<not> has_tool tools nm"
      "out = Inl (JsError (lit ''Required tool \"'' @ nm @ lit ''\" not found in provided toolset''))"
      "st' = st"
  | (called) t m w' where "has_tool tools nm" "find (\<lambda>t. name t = nm) tools = Some t"
      "run t params (remote st) = (out, m, w')"
      "st' = \<lparr>remote = w', invoked = invoked st @
               [\<lparr>tool = nm, args = params, outcome = out, shared_after = None\<rparr>]\<rparr>"
proof (cases "find (\<lambda>t. name t = nm) tools")
  case None
  then show ?thesis using missing assms by (simp add: findTool_run_def findTool_def has_tool_def)
next
  case (Some t)
  then have n: "name t = nm" by (auto simp: find_Some_iff)
  obtain o' m w' where r: "run t params (remote st) = (o', m, w')"
    by (cases "run t params (remote st)") auto
  with Some assms n have "o' = out"
      "st' = \<lparr>remote = w', invoked = invoked st @
               [\<lparr>tool = nm, args = params, outcome = out, shared_after = None\<rparr>]\<rparr>"
    by (auto simp: findTool_run_def findTool_def await_run_def)
  with called[OF _ Some] r Some show ?thesis by (simp add: has_tool_def)
qed

lemma findTool_run_sharing_cases:
  assumes "findTool_run_sharing tools nm params arr st = ((out, arr'), st')"
  obtains (missing) "\<not> has_tool tools nm"
      "out = Inl (JsError (lit ''Required tool \"'' @ nm @ lit ''\" not found in provided toolset''))"
      "arr' = arr" "st' = st"
  | (called) t m w' where "has_tool tools nm" "find (\<lambda>t. name t = nm) tools = Some t"
      "run t params (remote st) = (out, m, w')"
      "arr' = (case m of None \<Rightarrow> arr | Some ys \<Rightarrow> ys)"
      "st' = \<lparr>remote = w', invoked = invoked st @
               [\<lparr>tool = nm, args = params, outcome = out, shared_after = Some arr'\<rparr>]\<rparr>"
proof (cases "find (\<lambda>t. name t = nm) tools")
  case None
  then show ?thesis using missing assms
    by (simp add: findTool_run_sharing_def findTool_def has_tool_def)
next
  case (Some t)
  then have n: "name t = nm" by (auto simp: find_Some_iff)
  obtain o' m w' where r: "run t params (remote st) = (o', m, w')"
    by (cases "run t params (remote st)") auto
  with Some assms n have "o' = out" "arr' = (case m of None \<Rightarrow> arr | Some ys \<Rightarrow> ys)"
      "st' = \<lparr>remote = w', invoked = invoked st @
               [\<lparr>tool = nm, args = params, outcome = out, shared_after = Some arr'\<rparr>]\<rparr>"
    by (auto simp: findTool_run_sharing_def findTool_def await_run_sharing_def Let_def)
  with called[OF _ Some] r Some show ?thesis by (simp add: has_tool_def)
qed

lemma findTool_run_missing:
  "\<not> has_tool tools nm \<Longrightarrow>
   findTool_run tools nm params st =
     (Inl (JsError (lit ''Required tool \"'' @ nm @ lit ''\" not found in provided toolset'')), st)"
  by (simp add: findTool_run_def findTool_def has_tool_def)

lemma errorMessage_JsError [simp]:
  "errorMessage (JsError m) = Inr m"
  by (simp add: errorMessage_def)

section \<open>The stages\<close>

text \<open>Every way through a stage: how it completes and what it leaves on record.\<close>

lemma step1_cases:
  assumes "step1_check i d s0 c0 st = (res, st')"
  obtains (missing) "\<not> has_tool i (lit ''inwx_domain_check'')" "st' = st"
      "res = Returns (failure d (s0 @ [errorStep ''domain_check'' (notFound ''inwx_domain_check'')]) c0)"
  | (threw) t x m w' msg where "find (\<lambda>t. name t = lit ''inwx_domain_check'') i = Some t"
      "run t (checkArgs d) (remote st) = (Inl x, m, w')"
      "st' = logged st w' ''inwx_domain_check'' (checkArgs d) (Inl x) None"
      "errorMessage x = Inr msg"
      "res = Returns (failure d (s0 @ [errorStep ''domain_check'' msg]) c0)"
  | (rethrew) t x m w' e where "find (\<lambda>t. name t = lit ''inwx_domain_check'') i = Some t"
      "run t (checkArgs d) (remote st) = (Inl x, m, w')"
      "st' = logged st w' ''inwx_domain_check'' (checkArgs d) (Inl x) None"
      "errorMessage x = Inl e"
      "res = Throws e"
  | (returned) t raw m w' where "find (\<lambda>t. name t = lit ''inwx_domain_check'') i = Some t"
      "run t (checkArgs d) (remote st) = (Inr raw, m, w')"
      "st' = logged st w' ''inwx_domain_check'' (checkArgs d) (Inr raw) None"
      "res = Continues (readAvailability raw,
                  s0 @ [okStep ''domain_check''
                          (JObj [(lit ''domain'', JStr d), (lit ''available'', JBool (readAvailability raw))])])"
proof -
  obtain out st1 where f: "findTool_run i (lit ''inwx_domain_check'') (checkArgs d) st = (out, st1)"
    by (cases "findTool_run i (lit ''inwx_domain_check'') (checkArgs d) st")
  from f show ?thesis
  proof (cases rule: findTool_run_cases)
    case missing
    with f assms show ?thesis
      by (intro that(1)) (auto simp: step1_check_def)
  next
    case (called t m w')
    show ?thesis
    proof (cases out)
      case (Inl x)
      show ?thesis
      proof (cases "errorMessage x")
        case (Inl e)
        with \<open>out = Inl x\<close> called f assms show ?thesis
          by (intro that(3)[of t x m w' e]) (auto simp: step1_check_def)
      next
        case (Inr msg)
        with \<open>out = Inl x\<close> called f assms show ?thesis
          by (intro that(2)[of t x m w' msg]) (auto simp: step1_check_def)
      qed
    next
      case (Inr raw)
      with called f assms show ?thesis
        by (intro that(4)[of t raw m w']) (auto simp: step1_check_def Let_def)
    qed
  qed
qed

lemma step2_cases:
  assumes "step2_register i p d b ns s1 c1 st = (res, st')"
  obtains (skip) "skipRegistration p = Some True" "st' = st"
      "res = Continues (s1 @ [skippedStep ''domain_register'' ''skipRegistration=true''],
                  c1\<lparr>domainRegistered := Some False\<rparr>, ns)"
  | (unavailable) "skipRegistration p \<noteq> Some True" "\<not> b" "st' = st"
      "res = Continues (s1 @ [skippedStep ''domain_register'' ''domain not available''],
                  c1\<lparr>domainRegistered := Some False\<rparr>, ns)"
  | (missing) "skipRegistration p \<noteq> Some True" "b"
      "\<not> has_tool i (lit ''inwx_domain_register'')" "st' = st"
      "res = Returns (failure d (s1 @ [errorStep ''domain_register'' (notFound ''inwx_domain_register'')]) c1)"
  | (threw) t x m w' ns' msg where "skipRegistration p \<noteq> Some True" "b"
      "find (\<lambda>t. name t = lit ''inwx_domain_register'') i = Some t"
      "run t (registerArgs p d ns) (remote st) = (Inl x, m, w')"
      "st' = logged st w' ''inwx_domain_register'' (registerArgs p d ns) (Inl x) (Some ns')"
      "errorMessage x = Inr msg"
      "res = Returns (failure d (s1 @ [errorStep ''domain_register'' msg]) c1)"
  | (rethrew) t x m w' ns' e where "skipRegistration p \<noteq> Some True" "b"
      "find (\<lambda>t. name t = lit ''inwx_domain_register'') i = Some t"
      "run t (registerArgs p d ns) (remote st) = (Inl x, m, w')"
      "st' = logged st w' ''inwx_domain_register'' (registerArgs p d ns) (Inl x) (Some ns')"
      "errorMessage x = Inl e"
      "res = Throws e"
  | (returned) t v m w' where "skipRegistration p \<noteq> Some True" "b"
      "find (\<lambda>t. name t = lit ''inwx_domain_register'') i = Some t"
      "run t (registerArgs p d ns) (remote st) = (Inr v, m, w')"
      "st' = logged st w' ''inwx_domain_register'' (registerArgs p d ns) (Inr v)
               (Some (case m of None \<Rightarrow> ns | Some ys \<Rightarrow> ys))"
      "res = Continues (s1 @ [okStep ''domain_register'' v], c1\<lparr>domainRegistered := Some True\<rparr>,
               (case m of None \<Rightarrow> ns | Some ys \<Rightarrow> ys))"
proof (cases "skipRegistration p = Some True")
  case True
  with assms show ?thesis by (intro that(1)) (auto simp: step2_register_def)
next
  case nsk: False
  show ?thesis
  proof (cases b)
    case False
    with nsk assms show ?thesis by (intro that(2)) (auto simp: step2_register_def)
  next
    case True
    obtain out ns' st1 where
      f: "findTool_run_sharing i (lit ''inwx_domain_register'') (registerArgs p d ns) ns st = ((out, ns'), st1)"
      by (cases "findTool_run_sharing i (lit ''inwx_domain_register'') (registerArgs p d ns) ns st") auto
    from f show ?thesis
    proof (cases rule: findTool_run_sharing_cases)
      case missing
      with f assms nsk True show ?thesis
        by (intro that(3)) (auto simp: step2_register_def)
    next
      case (called t m w')
      show ?thesis
      proof (cases out)
        case (Inl x)
        show ?thesis
        proof (cases "errorMessage x")
          case (Inl e)
          with \<open>out = Inl x\<close> called f assms nsk True show ?thesis
            by (intro that(5)[of t x m w' ns' e]) (auto simp: step2_register_def)
        next
          case (Inr msg)
          with \<open>out = Inl x\<close> called f assms nsk True show ?thesis
            by (intro that(4)[of t x m w' ns' msg]) (auto simp: step2_register_def)
        qed
      next
        case (Inr v)
        with called f assms nsk True show ?thesis
          by (intro that(6)[of t v m w']) (auto simp: step2_register_def)
      qed
    qed
  qed
qed

lemma step3_cases:
  assumes "step3_nameservers i d ns s2 c2 st = (res, st')"
  obtains (none) "ns = []" "st' = st"
      "res = Continues (s2 @ [skippedStep ''nameserver_set'' ''no nameservers provided''], c2)"
  | (missing) "ns \<noteq> []" "\<not> has_tool i (lit ''inwx_nameserver_set'')" "st' = st"
      "res = Returns (failure d (s2 @ [errorStep ''nameserver_set'' (notFound ''inwx_nameserver_set'')]) c2)"
  | (threw) t x m w' ns' msg where "ns \<noteq> []"
      "find (\<lambda>t. name t = lit ''inwx_nameserver_set'') i = Some t"
      "run t (nameserverArgs d ns) (remote st) = (Inl x, m, w')"
      "st' = logged st w' ''inwx_nameserver_set'' (nameserverArgs d ns) (Inl x) (Some ns')"
      "errorMessage x = Inr msg"
      "res = Returns (failure d (s2 @ [errorStep ''nameserver_set'' msg]) c2)"
  | (rethrew) t x m w' ns' e where "ns \<noteq> []"
      "find (\<lambda>t. name t = lit ''inwx_nameserver_set'') i = Some t"
      "run t (nameserverArgs d ns) (remote st) = (Inl x, m, w')"
      "st' = logged st w' ''inwx_nameserver_set'' (nameserverArgs d ns) (Inl x) (Some ns')"
      "errorMessage x = Inl e"
      "res = Throws e"
  | (returned) t v m w' ns' where "ns \<noteq> []"
      "find (\<lambda>t. name t = lit ''inwx_nameserver_set'') i = Some t"
      "run t (nameserverArgs d ns) (remote st) = (Inr v, m, w')"
      "st' = logged st w' ''inwx_nameserver_set'' (nameserverArgs d ns) (Inr v) (Some ns')"
      "res = Continues (s2 @ [okStep ''nameserver_set'' v], c2\<lparr>nameserversConfigured := Some True\<rparr>)"
proof (cases "ns = []")
  case True
  with assms show ?thesis by (intro that(1)) (auto simp: step3_nameservers_def)
next
  case False
  obtain out ns' st1 where
    f: "findTool_run_sharing i (lit ''inwx_nameserver_set'') (nameserverArgs d ns) ns st = ((out, ns'), st1)"
    by (cases "findTool_run_sharing i (lit ''inwx_nameserver_set'') (nameserverArgs d ns) ns st") auto
  from f show ?thesis
  proof (cases rule: findTool_run_sharing_cases)
    case missing
    with f assms False show ?thesis
      by (intro that(2)) (auto simp: step3_nameservers_def)
  next
    case (called t m w')
    show ?thesis
    proof (cases out)
      case (Inl x)
      show ?thesis
      proof (cases "errorMessage x")
        case (Inl e)
        with \<open>out = Inl x\<close> called f assms False show ?thesis
          by (intro that(4)[of t x m w' ns' e]) (auto simp: step3_nameservers_def)
      next
        case (Inr msg)
        with \<open>out = Inl x\<close> called f assms False show ?thesis
          by (intro that(3)[of t x m w' ns' msg]) (auto simp: step3_nameservers_def)
      qed
    next
      case (Inr v)
      with called f assms False show ?thesis
        by (intro that(5)[of t v m w' ns']) (auto simp: step3_nameservers_def)
    qed
  qed
qed

lemma step4_cases:
  assumes "step4_provision i p d s3 c3 st = (res, st')"
  obtains (missing) "\<not> has_tool i (lit ''isp_provision_site'')" "st' = st"
      "res = Inr (failure d (s3 @ [errorStep ''isp_provision'' (notFound ''isp_provision_site'')]) c3)"
  | (threw) t x m w' msg where "find (\<lambda>t. name t = lit ''isp_provision_site'') i = Some t"
      "run t (provisionArgs p d) (remote st) = (Inl x, m, w')"
      "st' = logged st w' ''isp_provision_site'' (provisionArgs p d) (Inl x) None"
      "errorMessage x = Inr msg"
      "res = Inr (failure d (s3 @ [errorStep ''isp_provision'' msg]) c3)"
  | (rethrew) t x m w' e where "find (\<lambda>t. name t = lit ''isp_provision_site'') i = Some t"
      "run t (provisionArgs p d) (remote st) = (Inl x, m, w')"
      "st' = logged st w' ''isp_provision_site'' (provisionArgs p d) (Inl x) None"
      "errorMessage x = Inl e"
      "res = Inl e"
  | (returned) t v m w' where "find (\<lambda>t. name t = lit ''isp_provision_site'') i = Some t"
      "run t (provisionArgs p d) (remote st) = (Inr v, m, w')"
      "st' = logged st w' ''isp_provision_site'' (provisionArgs p d) (Inr v) None"
      "res = Inr \<lparr>ok = True, domain = d, steps = s3 @ [okStep ''isp_provision'' v],
            created = c3\<lparr>hostingProvisioned := Some True, ispProvisionResult := Some v\<rparr>\<rparr>"
proof -
  obtain out st1 where f: "findTool_run i (lit ''isp_provision_site'') (provisionArgs p d) st = (out, st1)"
    by (cases "findTool_run i (lit ''isp_provision_site'') (provisionArgs p d) st")
  from f show ?thesis
  proof (cases rule: findTool_run_cases)
    case missing
    with f assms show ?thesis
      by (intro that(1)) (auto simp: step4_provision_def)
  next
    case (called t m w')
    show ?thesis
    proof (cases out)
      case (Inl x)
      show ?thesis
      proof (cases "errorMessage x")
        case (Inl e)
        with \<open>out = Inl x\<close> called f assms show ?thesis
          by (intro that(3)[of t x m w' e]) (auto simp: step4_provision_def)
      next
        case (Inr msg)
        with \<open>out = Inl x\<close> called f assms show ?thesis
          by (intro that(2)[of t x m w' msg]) (auto simp: step4_provision_def)
      qed
    next
      case (Inr v)
      with called f assms show ?thesis
        by (intro that(4)[of t v m w']) (auto simp: step4_provision_def)
    qed
  qed
qed

lemma step1_grows: "step1_check i d s0 c0 st = (res, st') \<Longrightarrow> grows st st'"
  by (erule step1_cases) (simp_all add: grows_refl grows_logged)

lemma step2_grows: "step2_register i p d b ns s1 c1 st = (res, st') \<Longrightarrow> grows st st'"
  by (erule step2_cases) (simp_all add: grows_refl grows_logged)

lemma step3_grows: "step3_nameservers i d ns s2 c2 st = (res, st') \<Longrightarrow> grows st st'"
  by (erule step3_cases) (simp_all add: grows_refl grows_logged)

lemma step4_grows: "step4_provision i p d s3 c3 st = (r, st') \<Longrightarrow> grows st st'"
  by (erule step4_cases) (simp_all add: grows_refl grows_logged)

section \<open>The run as a chain of stages\<close>

lemma run_invalid:
  "trim (ProvisionDomainHostingParams.domain p) = [] \<Longrightarrow>
   provisionDomainWithHosting i s p st =
     (Inr \<lparr>ok = False, domain = lit '''',
           steps = [\<lparr>step = lit ''validate'', status = Error, data = None,
                     error = Some (lit ''domain is required'')\<rparr>],
           created = noneCreated\<rparr>,
      st)"
  by (simp add: provisionDomainWithHosting_def)

lemma run_unfold:
  "trim (ProvisionDomainHostingParams.domain p) \<noteq> [] \<Longrightarrow>
   provisionDomainWithHosting i s p st =
     after_step1 i s p (trim (ProvisionDomainHostingParams.domain p))
       (step1_check i (trim (ProvisionDomainHostingParams.domain p)) [] noneCreated st)"
  by (simp add: provisionDomainWithHosting_def after_step1_def after_step2_def after_step3_def
      split: prod.splits completion.splits)

lemma after_step3_Continues:
  "after_step3 s p d (Continues (s3, c3), st3) = step4_provision s p d s3 c3 st3"
  by (simp add: after_step3_def)

lemma after_step2_Continues:
  "after_step2 i s p d (Continues (s2, c2, ns2), st2) =
     after_step3 s p d (step3_nameservers i d ns2 s2 c2 st2)"
  by (simp add: after_step2_def)

lemma after_step1_Continues:
  "after_step1 i s p d (Continues (b, s1), st1) =
     after_step2 i s p d (step2_register i p d b (map JStr (nameservers p)) s1 noneCreated st1)"
  by (simp add: after_step1_def)

lemma after_step_stops:
  "after_step3 s p d (Throws e, st) = (Inl e, st)"
  "after_step3 s p d (Returns r, st) = (Inr r, st)"
  "after_step2 i s p d (Throws e, st) = (Inl e, st)"
  "after_step2 i s p d (Returns r, st) = (Inr r, st)"
  "after_step1 i s p d (Throws e, st) = (Inl e, st)"
  "after_step1 i s p d (Returns r, st) = (Inr r, st)"
  by (simp_all add: after_step1_def after_step2_def after_step3_def)

lemma after_step3_grows: "after_step3 s p d (x, st3) = (res, st') \<Longrightarrow> grows st3 st'"
  by (cases x) (auto simp: after_step3_def grows_refl dest: step4_grows)

lemma after_step2_grows:
  assumes "after_step2 i s p d (x, st2) = (res, st')"
  shows "grows st2 st'"
proof (cases x)
  case (Continues y)
  obtain s2 c2 ns2 where y: "y = (s2, c2, ns2)" by (cases y)
  obtain x3 st3 where r3: "step3_nameservers i d ns2 s2 c2 st2 = (x3, st3)"
    by (cases "step3_nameservers i d ns2 s2 c2 st2")
  with assms Continues y have "after_step3 s p d (x3, st3) = (res, st')"
    by (simp add: after_step2_Continues)
  with r3 show ?thesis by (blast intro: grows_trans step3_grows after_step3_grows)
qed (use assms in \<open>auto simp: after_step_stops grows_refl\<close>)

lemma after_step1_grows:
  assumes "after_step1 i s p d (x, st1) = (res, st')"
  shows "grows st1 st'"
proof (cases x)
  case (Continues y)
  obtain b s1 where y: "y = (b, s1)" by (cases y)
  obtain x2 st2 where r2: "step2_register i p d b (map JStr (nameservers p)) s1 noneCreated st1 = (x2, st2)"
    by (cases "step2_register i p d b (map JStr (nameservers p)) s1 noneCreated st1")
  with assms Continues y have "after_step2 i s p d (x2, st2) = (res, st')"
    by (simp add: after_step1_Continues)
  with r2 show ?thesis by (blast intro: grows_trans step2_grows after_step2_grows)
qed (use assms in \<open>auto simp: after_step_stops grows_refl\<close>)

section \<open>The shape of a returned ledger\<close>

lemma wellformed_failure:
  "noError pre \<Longrightarrow> wellformed (failure d (pre @ [errorStep sn msg]) c)"
  by (auto simp: wellformed_def)

lemma noError_snoc: "noError pre \<Longrightarrow> status e \<noteq> Error \<Longrightarrow> noError (pre @ [e])"
  by (simp add: noError_def)

lemma step4_wellformed:
  assumes "step4_provision s p d s3 c3 st = (Inr r, st')" and "noError s3"
  shows "wellformed r"
  using assms by (cases rule: step4_cases) (auto simp: wellformed_failure wellformed_def noError_def)

lemma after_step3_wellformed:
  assumes "after_step3 s p d (x, st) = (Inr r, st')"
    and "case x of Throws e \<Rightarrow> True | Returns r0 \<Rightarrow> wellformed r0 | Continues (s3, c3) \<Rightarrow> noError s3"
  shows "wellformed r"
  using assms
  by (cases x) (auto simp: after_step_stops after_step3_Continues dest: step4_wellformed)

lemma step3_wellformed:
  assumes "step3_nameservers i d ns s2 c2 st = (x, st')" and "noError s2"
  shows "case x of Throws e \<Rightarrow> True | Returns r0 \<Rightarrow> wellformed r0 | Continues (s3, c3) \<Rightarrow> noError s3"
  using assms by (cases rule: step3_cases) (auto simp: wellformed_failure noError_snoc)

lemma step2_wellformed:
  assumes "step2_register i p d b ns s1 c1 st = (x, st')" and "noError s1"
  shows "case x of Throws e \<Rightarrow> True | Returns r0 \<Rightarrow> wellformed r0
         | Continues (s2, c2, ns2) \<Rightarrow> noError s2"
  using assms by (cases rule: step2_cases) (auto simp: wellformed_failure noError_snoc)

lemma step1_wellformed:
  assumes "step1_check i d [] c0 st = (x, st')"
  shows "case x of Throws e \<Rightarrow> True | Returns r0 \<Rightarrow> wellformed r0
         | Continues (b, s1) \<Rightarrow> noError s1"
  using assms wellformed_failure[of "[]"]
  by (cases rule: step1_cases) (auto simp: noError_def)

lemma after_step2_wellformed:
  assumes "after_step2 i s p d (x, st) = (Inr r, st')"
    and "case x of Throws e \<Rightarrow> True | Returns r0 \<Rightarrow> wellformed r0
         | Continues (s2, c2, ns2) \<Rightarrow> noError s2"
  shows "wellformed r"
proof (cases x)
  case (Continues y)
  obtain s2 c2 ns2 where y: "y = (s2, c2, ns2)" by (cases y)
  obtain x3 st3 where r3: "step3_nameservers i d ns2 s2 c2 st = (x3, st3)"
    by (cases "step3_nameservers i d ns2 s2 c2 st")
  from assms Continues y r3 have "after_step3 s p d (x3, st3) = (Inr r, st')" "noError s2"
    by (simp_all add: after_step2_Continues)
  with step3_wellformed[OF r3] show ?thesis by (blast intro: after_step3_wellformed)
qed (use assms in \<open>auto simp: after_step_stops\<close>)

lemma after_step1_wellformed:
  assumes "after_step1 i s p d (x, st) = (Inr r, st')"
    and "case x of Throws e \<Rightarrow> True | Returns r0 \<Rightarrow> wellformed r0
         | Continues (b, s1) \<Rightarrow> noError s1"
  shows "wellformed r"
proof (cases x)
  case (Continues y)
  obtain b s1 where y: "y = (b, s1)" by (cases y)
  obtain x2 st2 where r2: "step2_register i p d b (map JStr (nameservers p)) s1 noneCreated st = (x2, st2)"
    by (cases "step2_register i p d b (map JStr (nameservers p)) s1 noneCreated st")
  from assms Continues y r2 have "after_step2 i s p d (x2, st2) = (Inr r, st')" "noError s1"
    by (simp_all add: after_step1_Continues)
  with step2_wellformed[OF r2] show ?thesis by (blast intro: after_step2_wellformed)
qed (use assms in \<open>auto simp: after_step_stops\<close>)

lemma run_wellformed:
  assumes "provisionDomainWithHosting i s p st = (Inr r, st')"
  shows "wellformed r"
proof (cases "trim (ProvisionDomainHostingParams.domain p) = []")
  case True
  with assms wellformed_failure[of "[]"] show ?thesis
    by (auto simp: run_invalid noError_def)
next
  case False
  obtain x st1 where r1: "step1_check i (trim (ProvisionDomainHostingParams.domain p)) [] noneCreated st = (x, st1)"
    by (cases "step1_check i (trim (ProvisionDomainHostingParams.domain p)) [] noneCreated st")
  with assms False have "after_step1 i s p (trim (ProvisionDomainHostingParams.domain p)) (x, st1) = (Inr r, st')"
    by (simp add: run_unfold)
  with step1_wellformed[OF r1] show ?thesis by (rule after_step1_wellformed[rotated])
qed

section \<open>A run whose registration stage is skipped\<close>

lemma step1_returned:
  assumes "find (\<lambda>t. name t = lit ''inwx_domain_check'') i = Some t"
    and "fst (run t (checkArgs d) (remote st)) = Inr raw"
  shows "\<exists>w'. step1_check i d s0 c0 st =
           (Continues (readAvailability raw,
                 s0 @ [okStep ''domain_check''
                         (JObj [(lit ''domain'', JStr d), (lit ''available'', JBool (readAvailability raw))])]),
            logged st w' ''inwx_domain_check'' (checkArgs d) (Inr raw) None)"
proof -
  obtain res st' where r: "step1_check i d s0 c0 st = (res, st')"
    by (cases "step1_check i d s0 c0 st")
  from r show ?thesis
  proof (cases rule: step1_cases)
    case missing
    with assms show ?thesis by (simp add: has_tool_def)
  next
    case (threw t' x m w' msg)
    with assms show ?thesis by simp
  next
    case (rethrew t' x m w' e)
    with assms show ?thesis by simp
  next
    case (returned t' raw' m w')
    with assms r show ?thesis by auto
  qed
qed

lemma step4_tail:
  assumes "step4_provision s p d s3 c3 a = (res, st')"
  shows "(\<forall>c\<in>set (calls_since a st'). tool c = lit ''isp_provision_site'') \<and>
         (\<forall>r. res = Inr r \<longrightarrow> (\<exists>e4. steps r = s3 @ [e4] \<and> step e4 = lit ''isp_provision''))"
  using assms
  by (cases rule: step4_cases) (simp_all add: calls_since_refl calls_since_logged)

lemma after_step2_tail:
  assumes "after_step2 i s p d (Continues (s2, c2, ns2), a) = (res, st')"
  shows "(\<forall>c\<in>set (calls_since a st').
              tool c = lit ''inwx_nameserver_set'' \<or> tool c = lit ''isp_provision_site'') \<and>
         (\<forall>r. res = Inr r \<longrightarrow>
            take (length s2) (steps r) = s2 \<and> length s2 < length (steps r) \<and>
            step (steps r ! length s2) = lit ''nameserver_set'' \<and>
            (status (steps r ! length s2) \<noteq> Error \<longrightarrow>
               length (steps r) = length s2 + 2 \<and>
               step (steps r ! Suc (length s2)) = lit ''isp_provision''))"
proof -
  obtain x3 a3 where r3: "step3_nameservers i d ns2 s2 c2 a = (x3, a3)"
    by (cases "step3_nameservers i d ns2 s2 c2 a")
  with assms have t: "after_step3 s p d (x3, a3) = (res, st')" by (simp add: after_step2_Continues)
  have sp: "calls_since a st' = calls_since a a3 @ calls_since a3 st'"
    by (rule calls_since_split[OF step3_grows[OF r3] after_step3_grows[OF t]])
  from r3 show ?thesis
  proof (cases rule: step3_cases)
    case none
    let ?e = "skippedStep ''nameserver_set'' ''no nameservers provided''"
    from t none have t': "step4_provision s p d (s2 @ [?e]) c2 a = (res, st')"
      by (simp add: after_step3_Continues)
    from step4_tail[OF t'] show ?thesis by (auto simp: nth_append)
  next
    case missing
    with t have "res = Inr (failure d (s2 @ [errorStep ''nameserver_set'' (notFound ''inwx_nameserver_set'')]) c2)"
      and "st' = a" by (simp_all add: after_step_stops)
    then show ?thesis by (simp add: calls_since_refl)
  next
    case (threw t0 x m w' ns' msg)
    with t have "res = Inr (failure d (s2 @ [errorStep ''nameserver_set'' msg]) c2)"
      and "st' = logged a w' ''inwx_nameserver_set'' (nameserverArgs d ns2) (Inl x) (Some ns')"
      by (simp_all add: after_step_stops)
    then show ?thesis by (simp add: calls_since_logged)
  next
    case (rethrew t0 x m w' ns' e)
    with t have "res = Inl e"
      and "st' = logged a w' ''inwx_nameserver_set'' (nameserverArgs d ns2) (Inl x) (Some ns')"
      by (simp_all add: after_step_stops)
    then show ?thesis by (simp add: calls_since_logged)
  next
    case (returned t0 v m w' ns')
    let ?e = "okStep ''nameserver_set'' v"
    from t returned have t': "step4_provision s p d (s2 @ [?e])
        (c2\<lparr>nameserversConfigured := Some True\<rparr>) a3 = (res, st')"
      by (simp add: after_step3_Continues)
    from returned have c: "calls_since a a3 = [\<lparr>tool = lit ''inwx_nameserver_set'',
        args = nameserverArgs d ns2, outcome = Inr v, shared_after = Some ns'\<rparr>]"
      by (simp add: calls_since_logged)
    from step4_tail[OF t'] c show ?thesis unfolding sp by (auto simp: nth_append)
  qed
qed

lemma run_registration_skipped:
  assumes run: "provisionDomainWithHosting i s p st = (res, st')"
    and d: "trim (ProvisionDomainHostingParams.domain p) \<noteq> []"
    and found: "find (\<lambda>t. name t = lit ''inwx_domain_check'') i = Some t"
    and ret: "fst (run t (checkArgs (trim (ProvisionDomainHostingParams.domain p))) (remote st)) = Inr raw"
    and sk: "skipRegistration p = Some True \<or> \<not> readAvailability raw"
  shows "lit ''inwx_domain_register'' \<notin> tool ` set (calls_since st st') \<and>
         (\<forall>r. res = Inr r \<longrightarrow>
            3 \<le> length (steps r) \<and>
            steps r ! 1 =
              skippedStep ''domain_register''
                (if skipRegistration p = Some True then ''skipRegistration=true''
                 else ''domain not available'') \<and>
            step (steps r ! 2) = lit ''nameserver_set'' \<and>
            (status (steps r ! 2) \<noteq> Error \<longrightarrow>
               length (steps r) = 4 \<and> step (steps r ! 3) = lit ''isp_provision''))"
proof -
  define dm where "dm = trim (ProvisionDomainHostingParams.domain p)"
  define e1 where "e1 = okStep ''domain_check''
        (JObj [(lit ''domain'', JStr dm), (lit ''available'', JBool (readAvailability raw))])"
  define e2 where "e2 = skippedStep ''domain_register''
               (if skipRegistration p = Some True then ''skipRegistration=true''
                else ''domain not available'')"
  define ns0 where "ns0 = map JStr (nameservers p)"
  from step1_returned[OF found ret[folded dm_def], of "[]" noneCreated] obtain w1 where
    s1: "step1_check i dm [] noneCreated st =
           (Continues (readAvailability raw, [e1]),
            logged st w1 ''inwx_domain_check'' (checkArgs dm) (Inr raw) None)"
    by (auto simp: e1_def)
  let ?a1 = "logged st w1 ''inwx_domain_check'' (checkArgs dm) (Inr raw) None"
  from sk have s2: "step2_register i p dm (readAvailability raw) ns0 [e1] noneCreated ?a1 =
      (Continues ([e1, e2], noneCreated\<lparr>domainRegistered := Some False\<rparr>, ns0), ?a1)"
    by (auto simp: step2_register_def e2_def)
  from run d s1 s2 have t: "after_step2 i s p dm
      (Continues ([e1, e2], noneCreated\<lparr>domainRegistered := Some False\<rparr>, ns0), ?a1) = (res, st')"
    by (simp add: run_unfold after_step1_Continues dm_def ns0_def)
  have sp: "calls_since st st' = calls_since st ?a1 @ calls_since ?a1 st'"
    by (rule calls_since_split[OF grows_logged after_step2_grows[OF t]])
  from after_step2_tail[OF t] have
    tl: "\<forall>c\<in>set (calls_since ?a1 st').
        tool c = lit ''inwx_nameserver_set'' \<or> tool c = lit ''isp_provision_site''"
    and st: "\<forall>r. res = Inr r \<longrightarrow>
            take 2 (steps r) = [e1, e2] \<and> 2 < length (steps r) \<and>
            step (steps r ! 2) = lit ''nameserver_set'' \<and>
            (status (steps r ! 2) \<noteq> Error \<longrightarrow>
               length (steps r) = 4 \<and> step (steps r ! 3) = lit ''isp_provision'')"
    by (simp_all add: numeral_2_eq_2 numeral_3_eq_3)
  have "\<forall>c\<in>set (calls_since st st'). tool c \<noteq> lit ''inwx_domain_register''"
  proof
    fix c assume "c \<in> set (calls_since st st')"
    then have "tool c = lit ''inwx_domain_check'' \<or> c \<in> set (calls_since ?a1 st')"
      unfolding sp calls_since_logged by auto
    with tl have "tool c = lit ''inwx_domain_check'' \<or> tool c = lit ''inwx_nameserver_set'' \<or>
        tool c = lit ''isp_provision_site''" by blast
    then show "tool c \<noteq> lit ''inwx_domain_register''"
      using lit_names_distinct by metis
  qed
  then have n: "lit ''inwx_domain_register'' \<notin> tool ` set (calls_since st st')" by auto
  have "\<forall>r. res = Inr r \<longrightarrow>
            3 \<le> length (steps r) \<and> steps r ! 1 = e2 \<and>
            step (steps r ! 2) = lit ''nameserver_set'' \<and>
            (status (steps r ! 2) \<noteq> Error \<longrightarrow>
               length (steps r) = 4 \<and> step (steps r ! 3) = lit ''isp_provision'')"
  proof (intro allI impI)
    fix r assume "res = Inr r"
    with st have f: "take 2 (steps r) = [e1, e2]" "2 < length (steps r)"
      "step (steps r ! 2) = lit ''nameserver_set''"
      "status (steps r ! 2) \<noteq> Error \<longrightarrow>
         length (steps r) = 4 \<and> step (steps r ! 3) = lit ''isp_provision''"
      by blast+
    have "take 2 (steps r) ! 1 = steps r ! 1" by (rule nth_take) simp
    with f(1) have "steps r ! 1 = e2" by simp
    with f show "3 \<le> length (steps r) \<and> steps r ! 1 = e2 \<and>
            step (steps r ! 2) = lit ''nameserver_set'' \<and>
            (status (steps r ! 2) \<noteq> Error \<longrightarrow>
               length (steps r) = 4 \<and> step (steps r ! 3) = lit ''isp_provision'')"
      by simp
  qed
  with n show ?thesis unfolding e2_def by blast
qed

section \<open>A run in which every operation is present and returns\<close>

lemma step1_succeeds:
  assumes "step1_check i d s0 c0 st = (res, st')"
    and "has_tool i (lit ''inwx_domain_check'')"
    and "\<forall>c\<in>set (calls_since st st'). \<not> isl (outcome c)"
  shows "\<exists>raw a. res = Continues (readAvailability raw,
                  s0 @ [okStep ''domain_check''
                          (JObj [(lit ''domain'', JStr d), (lit ''available'', JBool (readAvailability raw))])]) \<and>
           calls_since st st' =
             [\<lparr>tool = lit ''inwx_domain_check'', args = a, outcome = Inr raw, shared_after = None\<rparr>]"
  using assms by (cases rule: step1_cases) (simp_all add: calls_since_logged)

lemma step2_succeeds:
  assumes "step2_register i p d True ns s1 c1 st = (res, st')"
    and "skipRegistration p \<noteq> Some True"
    and "has_tool i (lit ''inwx_domain_register'')"
    and "\<forall>c\<in>set (calls_since st st'). \<not> isl (outcome c)"
  shows "\<exists>v a ns'. res = Continues (s1 @ [okStep ''domain_register'' v],
                      c1\<lparr>domainRegistered := Some True\<rparr>, ns') \<and>
           calls_since st st' =
             [\<lparr>tool = lit ''inwx_domain_register'', args = a, outcome = Inr v, shared_after = Some ns'\<rparr>]"
  using assms by (cases rule: step2_cases) (simp_all add: calls_since_logged)

lemma step3_succeeds:
  assumes "step3_nameservers i d ns s2 c2 st = (res, st')"
    and "ns \<noteq> []"
    and "has_tool i (lit ''inwx_nameserver_set'')"
    and "\<forall>c\<in>set (calls_since st st'). \<not> isl (outcome c)"
  shows "\<exists>v. res = Continues (s2 @ [okStep ''nameserver_set'' v], c2\<lparr>nameserversConfigured := Some True\<rparr>)"
  using assms by (cases rule: step3_cases) (simp_all add: calls_since_logged)

lemma step4_succeeds:
  assumes "step4_provision i p d s3 c3 st = (res, st')"
    and "has_tool i (lit ''isp_provision_site'')"
    and "\<forall>c\<in>set (calls_since st st'). \<not> isl (outcome c)"
  shows "\<exists>v. res = Inr \<lparr>ok = True, domain = d, steps = s3 @ [okStep ''isp_provision'' v],
            created = c3\<lparr>hostingProvisioned := Some True, ispProvisionResult := Some v\<rparr>\<rparr>"
  using assms by (cases rule: step4_cases) (simp_all add: calls_since_logged)

section \<open>Two runs whose invocations respond alike\<close>













section \<open>When the promise is rejected\<close>

lemma rejected_by_mono:
  "rejected_by a b e \<Longrightarrow> grows st a \<Longrightarrow> grows b st' \<Longrightarrow> grows a b \<Longrightarrow> rejected_by st st' e"
  unfolding rejected_by_def using calls_since_mono[of st a b st'] by blast

lemma step1_throws: "step1_check i d s0 c0 st = (Throws e, st') \<Longrightarrow> rejected_by st st' e"
  by (erule step1_cases) (simp_all add: rejected_by_def calls_since_logged)

lemma step2_throws: "step2_register i p d b ns s1 c1 st = (Throws e, st') \<Longrightarrow> rejected_by st st' e"
  by (erule step2_cases) (simp_all add: rejected_by_def calls_since_logged)

lemma step3_throws: "step3_nameservers i d ns s2 c2 st = (Throws e, st') \<Longrightarrow> rejected_by st st' e"
  by (erule step3_cases) (simp_all add: rejected_by_def calls_since_logged)

lemma step4_throws: "step4_provision i p d s3 c3 st = (Inl e, st') \<Longrightarrow> rejected_by st st' e"
  by (erule step4_cases) (simp_all add: rejected_by_def calls_since_logged)

lemma after_step3_throws:
  assumes "after_step3 s p d (x, a) = (Inl e, st')" and "x = Throws e \<longrightarrow> rejected_by st a e"
    and "grows st a"
  shows "rejected_by st st' e"
proof (cases x)
  case (Continues y)
  obtain s3 c3 where "y = (s3, c3)" by (cases y)
  with assms Continues have t: "step4_provision s p d s3 c3 a = (Inl e, st')"
    by (simp add: after_step3_Continues)
  show ?thesis
    by (rule rejected_by_mono[OF step4_throws[OF t] assms(3) grows_refl step4_grows[OF t]])
qed (use assms in \<open>auto simp: after_step_stops\<close>)

lemma after_step2_throws:
  assumes "after_step2 i s p d (x, a) = (Inl e, st')" and "x = Throws e \<longrightarrow> rejected_by st a e"
    and "grows st a"
  shows "rejected_by st st' e"
proof (cases x)
  case (Continues y)
  obtain s2 c2 ns2 where y: "y = (s2, c2, ns2)" by (cases y)
  obtain x3 a3 where r3: "step3_nameservers i d ns2 s2 c2 a = (x3, a3)"
    by (cases "step3_nameservers i d ns2 s2 c2 a")
  with assms Continues y have t: "after_step3 s p d (x3, a3) = (Inl e, st')"
    by (simp add: after_step2_Continues)
  have "x3 = Throws e \<longrightarrow> rejected_by st a3 e"
    using rejected_by_mono[OF step3_throws assms(3) grows_refl step3_grows[OF r3]] r3 by blast
  then show ?thesis
    by (rule after_step3_throws[OF t _ grows_trans[OF assms(3) step3_grows[OF r3]]])
qed (use assms in \<open>auto simp: after_step_stops\<close>)

lemma after_step1_throws:
  assumes "after_step1 i s p d (x, a) = (Inl e, st')" and "x = Throws e \<longrightarrow> rejected_by st a e"
    and "grows st a"
  shows "rejected_by st st' e"
proof (cases x)
  case (Continues y)
  obtain b s1 where y: "y = (b, s1)" by (cases y)
  obtain x2 a2 where r2: "step2_register i p d b (map JStr (nameservers p)) s1 noneCreated a = (x2, a2)"
    by (cases "step2_register i p d b (map JStr (nameservers p)) s1 noneCreated a")
  with assms Continues y have t: "after_step2 i s p d (x2, a2) = (Inl e, st')"
    by (simp add: after_step1_Continues)
  have "x2 = Throws e \<longrightarrow> rejected_by st a2 e"
    using rejected_by_mono[OF step2_throws assms(3) grows_refl step2_grows[OF r2]] r2 by blast
  then show ?thesis
    by (rule after_step2_throws[OF t _ grows_trans[OF assms(3) step2_grows[OF r2]]])
qed (use assms in \<open>auto simp: after_step_stops\<close>)

lemma run_rejected:
  assumes "provisionDomainWithHosting i s p st = (Inl e, st')"
  shows "\<exists>c\<in>set (calls_since st st'). \<exists>x. outcome c = Inl x \<and> errorMessage x = Inl e"
proof (cases "trim (ProvisionDomainHostingParams.domain p) = []")
  case True
  with assms show ?thesis by (simp add: run_invalid)
next
  case False
  obtain x a where r1: "step1_check i (trim (ProvisionDomainHostingParams.domain p)) [] noneCreated st = (x, a)"
    by (cases "step1_check i (trim (ProvisionDomainHostingParams.domain p)) [] noneCreated st")
  with assms False have t: "after_step1 i s p (trim (ProvisionDomainHostingParams.domain p)) (x, a) = (Inl e, st')"
    by (simp add: run_unfold)
  have "x = Throws e \<longrightarrow> rejected_by st a e" using step1_throws r1 by blast
  from after_step1_throws[OF t this step1_grows[OF r1]] show ?thesis
    by (simp add: rejected_by_def)
qed

text \<open>The equations that evaluate a run on an example registry.\<close>

lemmas run_defs = provisionDomainWithHosting_def step1_check_def step2_register_def
  step3_nameservers_def step4_provision_def findTool_run_def findTool_run_sharing_def
  findTool_def await_run_def await_run_sharing_def readAvailability_def errorMessage_def
  typeError_def calls_since_def has_tool_def Let_def

lemmas example_defs = mockTool_def failTool_def rejectTool_def emptyingTool_def baseParams_def
  checkAvail_def inwxToolset_def ispToolset_def world0_def inwxLater_def world7_def
  inwxEmptying_def ispFailing_def inwxNsFailing_def lit_def trim_def isWhiteSpace_def

section \<open>Claims about the workflow\<close>

text \<open>
  Claim C1. The promise returned by \<open>provisionDomainWithHosting\<close> is not always
  fulfilled. When \<open>inwx_domain_register\<close> rejects with the object \<open>{"toString": "x"}\<close>,
  the catch clause of the registration stage evaluates \<open>String(err)\<close> (line 77, called
  at line 147 under no \<open>try\<close>); the conversion throws a \<open>TypeError\<close>, and the promise is
  rejected with it after the availability check and the registration have been
  invoked. No result is returned, so the failure is not encoded in one.
\<close>

theorem unprintable_rejection_escapes:
  "fst (provisionDomainWithHosting
          [checkAvail True,
           rejectTool ''inwx_domain_register'' (JObj [(lit ''toString'', JStr (lit ''x''))])]
          ispToolset baseParams world0) = Inl typeError \<and>
   map tool (calls_since world0 (snd (provisionDomainWithHosting
          [checkAvail True,
           rejectTool ''inwx_domain_register'' (JObj [(lit ''toString'', JStr (lit ''x''))])]
          ispToolset baseParams world0))) =
     [lit ''inwx_domain_check'', lit ''inwx_domain_register''] \<and>
   map outcome (calls_since world0 (snd (provisionDomainWithHosting
          [checkAvail True,
           rejectTool ''inwx_domain_register'' (JObj [(lit ''toString'', JStr (lit ''x''))])]
          ispToolset baseParams world0))) =
     [Inr (JArr [JObj [(lit ''domain'', JStr (lit ''example.com'')), (lit ''avail'', JBool True)]]),
      Inl (NonError (JObj [(lit ''toString'', JStr (lit ''x''))]))]"
  by (simp add: run_defs example_defs)

text \<open>
  This is the only way for the promise to be rejected: a run whose operations throw
  nothing but values that \<open>String\<close> converts is fulfilled with a result.
\<close>

lemma fulfilled_when_messages_convert:
  assumes "provisionDomainWithHosting inwxTools ispTools params st = (res, st')"
    and "\<forall>c\<in>set (calls_since st st'). \<forall>x. outcome c = Inl x \<longrightarrow> \<not> isl (errorMessage x)"
  shows "\<exists>r. res = Inr r"
proof (cases res)
  case (Inl e)
  with run_rejected[of inwxTools ispTools params st e st'] assms show ?thesis by fastforce
qed simp

text \<open>
  Claim C2. When every character of the domain is white space (the empty domain
  included), the result has \<open>ok = False\<close>, exactly one step, named \<open>validate\<close> with
  status \<open>error\<close>, and an empty \<open>created\<close> record; the world is returned unchanged, so
  no operation of either registry has been invoked.
\<close>

theorem empty_domain_rejected:
  assumes "\<forall>c\<in>set (ProvisionDomainHostingParams.domain params). isWhiteSpace c"
  shows "provisionDomainWithHosting inwxTools ispTools params st =
     (Inr \<lparr>ok = False, domain = lit '''',
           steps = [\<lparr>step = lit ''validate'', status = Error, data = None,
                     error = Some (lit ''domain is required'')\<rparr>],
           created = \<lparr>domainRegistered = None, nameserversConfigured = None,
                      hostingProvisioned = None, ispProvisionResult = None\<rparr>\<rparr>,
      st)"
  using assms by (simp add: run_invalid trim_Nil_iff)

theorem empty_domain_rejected_witness:
  "list_all isWhiteSpace (lit ''  '') \<and>
   provisionDomainWithHosting inwxToolset ispToolset
       (baseParams\<lparr>ProvisionDomainHostingParams.domain := lit ''  ''\<rparr>) world0 =
     (Inr \<lparr>ok = False, domain = lit '''',
           steps = [\<lparr>step = lit ''validate'', status = Error, data = None,
                     error = Some (lit ''domain is required'')\<rparr>],
           created = \<lparr>domainRegistered = None, nameserversConfigured = None,
                      hostingProvisioned = None, ispProvisionResult = None\<rparr>\<rparr>,
      world0)"
proof -
  have h: "\<forall>c\<in>set (ProvisionDomainHostingParams.domain
              (baseParams\<lparr>ProvisionDomainHostingParams.domain := lit ''  ''\<rparr>)). isWhiteSpace c"
    by (simp add: lit_def isWhiteSpace_def)
  from empty_domain_rejected[OF h] h show ?thesis by (simp add: list_all_iff)
qed

text \<open>
  Claim C3, amended. When the trimmed domain is not empty, the nameserver list is not
  empty, \<open>skipRegistration\<close> is not true, each of the four operations is present in its
  registry, every invocation made by the run returned, the availability check
  reported the domain available, and the registration did not leave the nameserver
  array it was handed empty, the result has \<open>ok = True\<close> and exactly four steps,
  \<open>domain_check\<close>, \<open>domain_register\<close>, \<open>nameserver_set\<close>, \<open>isp_provision\<close> in this
  order, all with status \<open>ok\<close>.
\<close>

theorem full_run_all_ok:
  assumes run: "provisionDomainWithHosting inwxTools ispTools params st = (res, st')"
    and d: "trim (ProvisionDomainHostingParams.domain params) \<noteq> []"
    and ns: "nameservers params \<noteq> []"
    and skip: "skipRegistration params \<noteq> Some True"
    and p1: "has_tool inwxTools (lit ''inwx_domain_check'')"
    and p2: "has_tool inwxTools (lit ''inwx_domain_register'')"
    and p3: "has_tool inwxTools (lit ''inwx_nameserver_set'')"
    and p4: "has_tool ispTools (lit ''isp_provision_site'')"
    and avail: "\<forall>c\<in>set (calls_since st st'). \<forall>raw.
        tool c = lit ''inwx_domain_check'' \<and> outcome c = Inr raw \<longrightarrow> readAvailability raw"
    and succ: "\<forall>c\<in>set (calls_since st st'). \<not> isl (outcome c)"
    and kept: "\<forall>c\<in>set (calls_since st st').
        tool c = lit ''inwx_domain_register'' \<longrightarrow> shared_after c \<noteq> Some []"
  shows "\<exists>r. res = Inr r \<and> ok r \<and>
           map step (steps r) =
             [lit ''domain_check'', lit ''domain_register'', lit ''nameserver_set'', lit ''isp_provision''] \<and>
           map status (steps r) = [Ok, Ok, Ok, Ok]"
proof -
  define dm where "dm = trim (ProvisionDomainHostingParams.domain params)"
  obtain r1 a1 where s1: "step1_check inwxTools dm [] noneCreated st = (r1, a1)"
    by (cases "step1_check inwxTools dm [] noneCreated st")
  from run d s1 have t1: "after_step1 inwxTools ispTools params dm (r1, a1) = (res, st')"
    by (simp add: run_unfold dm_def)
  note g1 = step1_grows[OF s1] and h1 = after_step1_grows[OF t1]
  have "set (calls_since st a1) \<subseteq> set (calls_since st st')"
    using calls_since_mono[OF grows_refl g1 h1] .
  with succ avail have succ1: "\<forall>c\<in>set (calls_since st a1). \<not> isl (outcome c)"
    and avail1: "\<forall>c\<in>set (calls_since st a1). \<forall>raw.
        tool c = lit ''inwx_domain_check'' \<and> outcome c = Inr raw \<longrightarrow> readAvailability raw"
    by blast+
  from step1_succeeds[OF s1 p1 succ1] obtain raw a where
    r1: "r1 = Continues (readAvailability raw,
                  [okStep ''domain_check''
                          (JObj [(lit ''domain'', JStr dm), (lit ''available'', JBool (readAvailability raw))])])"
    and c1: "calls_since st a1 =
      [\<lparr>tool = lit ''inwx_domain_check'', args = a, outcome = Inr raw, shared_after = None\<rparr>]"
    by auto
  from avail1 c1 have av: "readAvailability raw" by simp
  let ?e1 = "okStep ''domain_check'' (JObj [(lit ''domain'', JStr dm), (lit ''available'', JBool True)])"
  obtain r2 a2 where s2: "step2_register inwxTools params dm True (map JStr (nameservers params))
      [?e1] noneCreated a1 = (r2, a2)"
    by (cases "step2_register inwxTools params dm True (map JStr (nameservers params)) [?e1] noneCreated a1")
  from t1 r1 av s2 have t2: "after_step2 inwxTools ispTools params dm (r2, a2) = (res, st')"
    by (simp add: after_step1_Continues)
  note g2 = step2_grows[OF s2] and h2 = after_step2_grows[OF t2]
  have sub2: "set (calls_since a1 a2) \<subseteq> set (calls_since st st')"
    using calls_since_mono[OF g1 g2 h2] .
  with succ have succ2: "\<forall>c\<in>set (calls_since a1 a2). \<not> isl (outcome c)" by blast
  from step2_succeeds[OF s2 skip p2 succ2] obtain v2 a' ns2 where
    r2: "r2 = Continues ([?e1] @ [okStep ''domain_register'' v2],
                         noneCreated\<lparr>domainRegistered := Some True\<rparr>, ns2)"
    and c2: "calls_since a1 a2 =
      [\<lparr>tool = lit ''inwx_domain_register'', args = a', outcome = Inr v2, shared_after = Some ns2\<rparr>]"
    by blast
  from sub2 c2 kept have ns2: "ns2 \<noteq> []" by auto
  let ?s2 = "[?e1] @ [okStep ''domain_register'' v2]"
  let ?c2 = "noneCreated\<lparr>domainRegistered := Some True\<rparr>"
  obtain r3 a3 where s3: "step3_nameservers inwxTools dm ns2 ?s2 ?c2 a2 = (r3, a3)"
    by (cases "step3_nameservers inwxTools dm ns2 ?s2 ?c2 a2")
  from t2 r2 s3 have t3: "after_step3 ispTools params dm (r3, a3) = (res, st')"
    by (simp add: after_step2_Continues)
  note g3 = step3_grows[OF s3] and h3 = after_step3_grows[OF t3]
  have "set (calls_since a2 a3) \<subseteq> set (calls_since st st')"
    using calls_since_mono[OF grows_trans[OF g1 g2] g3 h3] .
  with succ have succ3: "\<forall>c\<in>set (calls_since a2 a3). \<not> isl (outcome c)" by blast
  from step3_succeeds[OF s3 ns2 p3 succ3] obtain v3 where
    r3: "r3 = Continues (?s2 @ [okStep ''nameserver_set'' v3], ?c2\<lparr>nameserversConfigured := Some True\<rparr>)"
    by blast
  let ?s3 = "?s2 @ [okStep ''nameserver_set'' v3]"
  let ?c3 = "?c2\<lparr>nameserversConfigured := Some True\<rparr>"
  from t3 r3 have s4: "step4_provision ispTools params dm ?s3 ?c3 a3 = (res, st')"
    by (simp add: after_step3_Continues)
  have "set (calls_since a3 st') \<subseteq> set (calls_since st st')"
    using calls_since_mono[OF grows_trans[OF grows_trans[OF g1 g2] g3] step4_grows[OF s4] grows_refl] .
  with succ have succ4: "\<forall>c\<in>set (calls_since a3 st'). \<not> isl (outcome c)" by blast
  from step4_succeeds[OF s4 p4 succ4] obtain v4 where
    "res = Inr \<lparr>ok = True, domain = dm, steps = ?s3 @ [okStep ''isp_provision'' v4],
            created = ?c3\<lparr>hostingProvisioned := Some True, ispProvisionResult := Some v4\<rparr>\<rparr>"
    by blast
  then show ?thesis by simp
qed

theorem full_run_all_ok_witness:
  "map response (calls_since world0 (snd (provisionDomainWithHosting inwxToolset ispToolset baseParams world0))) =
     [(Inr (JArr [JObj [(lit ''domain'', JStr (lit ''example.com'')), (lit ''avail'', JBool True)]]), None),
      (Inr (JObj [(lit ''domain'', JStr (lit ''example.com''))]),
       Some [JStr (lit ''ns1.hosting.de''), JStr (lit ''ns2.hosting.de'')]),
      (Inr (JObj []), Some [JStr (lit ''ns1.hosting.de''), JStr (lit ''ns2.hosting.de'')]),
      (Inr (JObj [(lit ''ok'', JBool True)]), None)] \<and>
   ok (projr (fst (provisionDomainWithHosting inwxToolset ispToolset baseParams world0))) \<and>
   map step (steps (projr (fst (provisionDomainWithHosting inwxToolset ispToolset baseParams world0)))) =
     [lit ''domain_check'', lit ''domain_register'', lit ''nameserver_set'', lit ''isp_provision''] \<and>
   map status (steps (projr (fst (provisionDomainWithHosting inwxToolset ispToolset baseParams world0)))) =
     [Ok, Ok, Ok, Ok]"
proof -
  let ?run = "provisionDomainWithHosting inwxToolset ispToolset baseParams world0"
  let ?ns = "[JStr (lit ''ns1.hosting.de''), JStr (lit ''ns2.hosting.de'')]"
  have run: "?run = (fst ?run, snd ?run)" by simp
  have d: "trim (ProvisionDomainHostingParams.domain baseParams) \<noteq> []" by (simp add: example_defs)
  have ns: "nameservers baseParams \<noteq> []" by (simp add: baseParams_def)
  have sk: "skipRegistration baseParams \<noteq> Some True" by (simp add: baseParams_def)
  have p: "has_tool inwxToolset (lit ''inwx_domain_check'')"
    "has_tool inwxToolset (lit ''inwx_domain_register'')"
    "has_tool inwxToolset (lit ''inwx_nameserver_set'')"
    "has_tool ispToolset (lit ''isp_provision_site'')"
    by (simp_all add: has_tool_def example_defs)
  have calls: "calls_since world0 (snd ?run) =
     [\<lparr>tool = lit ''inwx_domain_check'', args = checkArgs (lit ''example.com''),
       outcome = Inr (JArr [JObj [(lit ''domain'', JStr (lit ''example.com'')), (lit ''avail'', JBool True)]]),
       shared_after = None\<rparr>,
      \<lparr>tool = lit ''inwx_domain_register'', args = registerArgs baseParams (lit ''example.com'') ?ns,
       outcome = Inr (JObj [(lit ''domain'', JStr (lit ''example.com''))]),
       shared_after = Some ?ns\<rparr>,
      \<lparr>tool = lit ''inwx_nameserver_set'', args = nameserverArgs (lit ''example.com'') ?ns,
       outcome = Inr (JObj []), shared_after = Some ?ns\<rparr>,
      \<lparr>tool = lit ''isp_provision_site'', args = provisionArgs baseParams (lit ''example.com''),
       outcome = Inr (JObj [(lit ''ok'', JBool True)]), shared_after = None\<rparr>]"
    by (simp add: run_defs example_defs)
  have av: "\<forall>c\<in>set (calls_since world0 (snd ?run)). \<forall>raw.
        tool c = lit ''inwx_domain_check'' \<and> outcome c = Inr raw \<longrightarrow> readAvailability raw"
    unfolding calls by (simp add: readAvailability_def lit_def)
  have su: "\<forall>c\<in>set (calls_since world0 (snd ?run)). \<not> isl (outcome c)"
    unfolding calls by simp
  have ke: "\<forall>c\<in>set (calls_since world0 (snd ?run)).
        tool c = lit ''inwx_domain_register'' \<longrightarrow> shared_after c \<noteq> Some []"
    unfolding calls by simp
  from full_run_all_ok[OF run d ns sk p av su ke] obtain r where "fst ?run = Inr r" "ok r"
    "map step (steps r) =
       [lit ''domain_check'', lit ''domain_register'', lit ''nameserver_set'', lit ''isp_provision'']"
    "map status (steps r) = [Ok, Ok, Ok, Ok]"
    by (elim exE conjE)
  with calls show ?thesis by (simp add: response_def)
qed

text \<open>
  Without the condition on \<open>skipRegistration\<close> the property fails: with
  \<open>skipRegistration = true\<close>, an available domain and every invoked operation
  succeeding, the run has \<open>ok = True\<close> but its registration step is \<open>skipped\<close>, not
  \<open>ok\<close>.
\<close>

theorem skip_breaks_all_ok_counterexample:
  "trim (ProvisionDomainHostingParams.domain (baseParams\<lparr>skipRegistration := Some True\<rparr>)) \<noteq> [] \<and>
   nameservers (baseParams\<lparr>skipRegistration := Some True\<rparr>) \<noteq> [] \<and>
   map outcome (calls_since world0 (snd (provisionDomainWithHosting inwxToolset ispToolset
      (baseParams\<lparr>skipRegistration := Some True\<rparr>) world0))) =
     [Inr (JArr [JObj [(lit ''domain'', JStr (lit ''example.com'')), (lit ''avail'', JBool True)]]),
      Inr (JObj []), Inr (JObj [(lit ''ok'', JBool True)])] \<and>
   readAvailability (JArr [JObj [(lit ''domain'', JStr (lit ''example.com'')), (lit ''avail'', JBool True)]]) \<and>
   ok (projr (fst (provisionDomainWithHosting inwxToolset ispToolset
      (baseParams\<lparr>skipRegistration := Some True\<rparr>) world0))) \<and>
   map status (steps (projr (fst (provisionDomainWithHosting inwxToolset ispToolset
      (baseParams\<lparr>skipRegistration := Some True\<rparr>) world0)))) = [Ok, Skipped, Ok, Ok]"
  by (simp add: run_defs example_defs)

text \<open>
  Without the condition on the nameserver array it fails too. The registration is
  handed \<open>params.nameservers\<close> itself (line 141), and the nameserver stage reads its
  length again (line 156): when the registration empties the array and returns, with
  a non-empty list in the parameters, \<open>skipRegistration\<close> unset, the domain available
  and every invoked operation succeeding, the nameserver step is \<open>skipped\<close> and
  \<open>inwx_nameserver_set\<close> is not invoked.
\<close>

theorem emptied_nameservers_skip_stage:
  "nameservers baseParams \<noteq> [] \<and> skipRegistration baseParams = None \<and>
   map tool (calls_since world0 (snd (provisionDomainWithHosting inwxEmptying ispToolset baseParams world0))) =
     [lit ''inwx_domain_check'', lit ''inwx_domain_register'', lit ''isp_provision_site''] \<and>
   map response (calls_since world0 (snd (provisionDomainWithHosting inwxEmptying ispToolset baseParams world0))) =
     [(Inr (JArr [JObj [(lit ''domain'', JStr (lit ''example.com'')), (lit ''avail'', JBool True)]]), None),
      (Inr (JObj []), Some []),
      (Inr (JObj [(lit ''ok'', JBool True)]), None)] \<and>
   ok (projr (fst (provisionDomainWithHosting inwxEmptying ispToolset baseParams world0))) \<and>
   map status (steps (projr (fst (provisionDomainWithHosting inwxEmptying ispToolset baseParams world0)))) =
     [Ok, Ok, Skipped, Ok]"
  by (simp add: run_defs example_defs response_def)



text \<open>
  Claim C5, amended. When the availability check returns and reports the domain
  unavailable, and \<open>skipRegistration\<close> is not true, \<open>inwx_domain_register\<close> is not
  invoked, and in the result the run returns the second step is \<open>domain_register\<close>
  with status \<open>skipped\<close> and the reason \<open>domain not available\<close>, and the run has gone
  on to the nameserver stage: there is a third step, named \<open>nameserver_set\<close>. Unless
  that step has status \<open>error\<close>, there is a fourth step, \<open>isp_provision\<close>: the hosting
  stage is reached.
\<close>

theorem unavailable_skips_and_continues:
  assumes "provisionDomainWithHosting inwxTools ispTools params st = (res, st')"
    and "trim (ProvisionDomainHostingParams.domain params) \<noteq> []"
    and "skipRegistration params \<noteq> Some True"
    and "find (\<lambda>t. name t = lit ''inwx_domain_check'') inwxTools = Some t"
    and "fst (run t (checkArgs (trim (ProvisionDomainHostingParams.domain params))) (remote st)) = Inr raw"
    and "\<not> readAvailability raw"
  shows "lit ''inwx_domain_register'' \<notin> tool ` set (calls_since st st') \<and>
         (\<forall>r. res = Inr r \<longrightarrow>
            3 \<le> length (steps r) \<and>
            steps r ! 1 = skippedStep ''domain_register'' ''domain not available'' \<and>
            step (steps r ! 2) = lit ''nameserver_set'' \<and>
            (status (steps r ! 2) \<noteq> Error \<longrightarrow>
               length (steps r) = 4 \<and> step (steps r ! 3) = lit ''isp_provision''))"
  using run_registration_skipped[OF assms(1,2,4,5)] assms(3,6) by simp

theorem unavailable_skips_and_continues_witness:
  "skipRegistration baseParams \<noteq> Some True \<and>
   \<not> readAvailability (JArr [JObj [(lit ''domain'', JStr (lit ''example.com'')), (lit ''avail'', JBool False)]]) \<and>
   map step (steps (projr (fst (provisionDomainWithHosting
      [checkAvail False, mockTool ''inwx_nameserver_set'' (JObj [])] ispToolset baseParams world0)))) =
     [lit ''domain_check'', lit ''domain_register'', lit ''nameserver_set'', lit ''isp_provision''] \<and>
   map status (steps (projr (fst (provisionDomainWithHosting
      [checkAvail False, mockTool ''inwx_nameserver_set'' (JObj [])] ispToolset baseParams world0)))) =
     [Ok, Skipped, Ok, Ok] \<and>
   steps (projr (fst (provisionDomainWithHosting
      [checkAvail False, mockTool ''inwx_nameserver_set'' (JObj [])] ispToolset baseParams world0))) ! 1 =
     skippedStep ''domain_register'' ''domain not available'' \<and>
   lit ''inwx_domain_register'' \<notin> tool ` set (calls_since world0 (snd (provisionDomainWithHosting
      [checkAvail False, mockTool ''inwx_nameserver_set'' (JObj [])] ispToolset baseParams world0)))"
proof -
  let ?i = "[checkAvail False, mockTool ''inwx_nameserver_set'' (JObj [])]"
  let ?run = "provisionDomainWithHosting ?i ispToolset baseParams world0"
  let ?raw = "JArr [JObj [(lit ''domain'', JStr (lit ''example.com'')), (lit ''avail'', JBool False)]]"
  have run: "?run = (fst ?run, snd ?run)" by simp
  have d: "trim (ProvisionDomainHostingParams.domain baseParams) \<noteq> []" by (simp add: example_defs)
  have sk: "skipRegistration baseParams \<noteq> Some True" by (simp add: baseParams_def)
  have f: "find (\<lambda>t. name t = lit ''inwx_domain_check'') ?i = Some (checkAvail False)"
    by (simp add: example_defs)
  have rt: "fst (run (checkAvail False) (checkArgs (trim (ProvisionDomainHostingParams.domain baseParams)))
      (remote world0)) = Inr ?raw"
    by (simp add: checkAvail_def mockTool_def)
  have av: "\<not> readAvailability ?raw"
    by (simp add: readAvailability_def lit_def)
  have st: "map status (steps (projr (fst ?run))) = [Ok, Skipped, Ok, Ok]"
    and sn: "map step (steps (projr (fst ?run))) =
     [lit ''domain_check'', lit ''domain_register'', lit ''nameserver_set'', lit ''isp_provision'']"
    by (simp_all add: run_defs example_defs)
  have ret: "fst ?run = Inr (projr (fst ?run))"
    by (simp add: run_defs example_defs)
  from unavailable_skips_and_continues[OF run d sk f rt av] ret have
    "steps (projr (fst ?run)) ! 1 = skippedStep ''domain_register'' ''domain not available''"
    "lit ''inwx_domain_register'' \<notin> tool ` set (calls_since world0 (snd ?run))"
    by blast+
  with sk av st sn show ?thesis by simp
qed

text \<open>
  That the run always goes on to the hosting stage fails: when the domain is
  unavailable and \<open>inwx_nameserver_set\<close> throws, the run ends with the
  \<open>nameserver_set\<close> step in error, there is no \<open>isp_provision\<close> step and
  \<open>isp_provision_site\<close> is never invoked.
\<close>

theorem unavailable_then_nameserver_failure_counterexample:
  "trim (ProvisionDomainHostingParams.domain baseParams) \<noteq> [] \<and>
   skipRegistration baseParams = None \<and>
   map outcome (take 1 (calls_since world0 (snd (provisionDomainWithHosting
      [checkAvail False, failTool ''inwx_nameserver_set'' ''NS update failed'']
      ispToolset baseParams world0)))) =
     [Inr (JArr [JObj [(lit ''domain'', JStr (lit ''example.com'')), (lit ''avail'', JBool False)]])] \<and>
   \<not> readAvailability (JArr [JObj [(lit ''domain'', JStr (lit ''example.com'')), (lit ''avail'', JBool False)]]) \<and>
   map step (steps (projr (fst (provisionDomainWithHosting
      [checkAvail False, failTool ''inwx_nameserver_set'' ''NS update failed'']
      ispToolset baseParams world0)))) =
     [lit ''domain_check'', lit ''domain_register'', lit ''nameserver_set''] \<and>
   map status (steps (projr (fst (provisionDomainWithHosting
      [checkAvail False, failTool ''inwx_nameserver_set'' ''NS update failed'']
      ispToolset baseParams world0)))) = [Ok, Skipped, Error] \<and>
   map tool (calls_since world0 (snd (provisionDomainWithHosting
      [checkAvail False, failTool ''inwx_nameserver_set'' ''NS update failed'']
      ispToolset baseParams world0))) = [lit ''inwx_domain_check'', lit ''inwx_nameserver_set'']"
  by (simp add: run_defs example_defs)

text \<open>
  Claim C6. When the trimmed domain is not empty and the registrar registry has no
  operation named \<open>inwx_domain_check\<close>, the result has \<open>ok = False\<close> and a single step:
  \<open>domain_check\<close> with status \<open>error\<close>, whose message is
  \<open>Required tool "inwx_domain_check" not found in provided toolset\<close> and so names the
  missing operation. No operation is invoked.
\<close>

theorem missing_check_tool:
  assumes "trim (ProvisionDomainHostingParams.domain params) \<noteq> []"
    and "\<not> has_tool inwxTools (lit ''inwx_domain_check'')"
  shows "provisionDomainWithHosting inwxTools ispTools params st =
     (Inr \<lparr>ok = False, domain = trim (ProvisionDomainHostingParams.domain params),
           steps = [\<lparr>step = lit ''domain_check'', status = Error, data = None,
                     error = Some (lit ''Required tool \"'' @ lit ''inwx_domain_check'' @
                                   lit ''\" not found in provided toolset'')\<rparr>],
           created = \<lparr>domainRegistered = None, nameserversConfigured = None,
                      hostingProvisioned = None, ispProvisionResult = None\<rparr>\<rparr>,
      st)"
  using assms
  by (simp add: provisionDomainWithHosting_def step1_check_def findTool_run_missing)

theorem missing_check_tool_witness:
  "provisionDomainWithHosting [] ispToolset baseParams world0 =
     (Inr \<lparr>ok = False, domain = lit ''example.com'',
           steps = [\<lparr>step = lit ''domain_check'', status = Error, data = None,
                     error = Some (lit ''Required tool \"inwx_domain_check\" not found in provided toolset'')\<rparr>],
           created = \<lparr>domainRegistered = None, nameserversConfigured = None,
                      hostingProvisioned = None, ispProvisionResult = None\<rparr>\<rparr>,
      world0)"
proof -
  have d: "trim (ProvisionDomainHostingParams.domain baseParams) \<noteq> []"
    by (simp add: example_defs)
  have m: "\<not> has_tool ([] :: nat ExternalBoundTool list) (lit ''inwx_domain_check'')"
    by (simp add: has_tool_def)
  from missing_check_tool[OF d m, of ispToolset world0] show ?thesis
    by (simp add: example_defs)
qed

text \<open>
  Claim C7. The availability-check stage accepts the result of the operation as a
  single record or as a sequence of records. In both shapes the availability is the
  boolean \<open>avail\<close> field of the only record, or of the first one; it is false when that
  record has no \<open>avail\<close> field, when the sequence is empty, when the result is neither
  a record nor a sequence, and when the first element of the sequence is not a record.
  The stage records that availability in its step and hands it to the registration
  stage.
\<close>

theorem availability_read_from_first_record:
  "(map_of fs (lit ''avail'') = Some (JBool b) \<longrightarrow>
      readAvailability (JObj fs) = b \<and> readAvailability (JArr (JObj fs # rest)) = b) \<and>
   (map_of fs (lit ''avail'') = None \<longrightarrow>
      \<not> readAvailability (JObj fs) \<and> \<not> readAvailability (JArr (JObj fs # rest))) \<and>
   \<not> readAvailability (JArr []) \<and>
   ((\<forall>gs. raw \<noteq> JObj gs) \<and> \<not> isArray raw \<longrightarrow> \<not> readAvailability raw) \<and>
   ((\<forall>gs. x \<noteq> JObj gs) \<longrightarrow> \<not> readAvailability (JArr (x # rest))) \<and>
   (find (\<lambda>t. name t = lit ''inwx_domain_check'') inwxTools = Some t \<and>
    fst (run t (checkArgs d) (remote st)) = Inr result \<longrightarrow>
      fst (step1_check inwxTools d steps0 created0 st) =
        Continues (readAvailability result,
             steps0 @ [okStep ''domain_check''
                         (JObj [(lit ''domain'', JStr d),
                                (lit ''available'', JBool (readAvailability result))])]))"
proof -
  have a: "(\<forall>gs. raw \<noteq> JObj gs) \<and> \<not> isArray raw \<longrightarrow> \<not> readAvailability raw"
    by (cases raw) (simp_all add: readAvailability_def)
  have b: "(\<forall>gs. x \<noteq> JObj gs) \<longrightarrow> \<not> readAvailability (JArr (x # rest))"
    by (cases x) (simp_all add: readAvailability_def)
  have c: "find (\<lambda>t. name t = lit ''inwx_domain_check'') inwxTools = Some t \<and>
    fst (run t (checkArgs d) (remote st)) = Inr result \<longrightarrow>
      fst (step1_check inwxTools d steps0 created0 st) =
        Continues (readAvailability result,
             steps0 @ [okStep ''domain_check''
                         (JObj [(lit ''domain'', JStr d),
                                (lit ''available'', JBool (readAvailability result))])])"
    using step1_returned[of inwxTools t d st result steps0 created0] by auto
  from a b c show ?thesis by (simp add: readAvailability_def)
qed

theorem availability_read_from_first_record_witness:
  "readAvailability (JObj [(lit ''domain'', JStr (lit ''example.com'')), (lit ''avail'', JBool True)]) \<and>
   readAvailability (JArr [JObj [(lit ''domain'', JStr (lit ''example.com'')), (lit ''avail'', JBool True)],
                           JObj [(lit ''avail'', JBool False)]]) \<and>
   \<not> readAvailability (JObj [(lit ''domain'', JStr (lit ''example.com''))]) \<and>
   \<not> readAvailability (JArr [JObj [(lit ''domain'', JStr (lit ''example.com''))]]) \<and>
   \<not> readAvailability (JStr (lit ''available'')) \<and>
   \<not> readAvailability (JArr [JNull, JObj [(lit ''avail'', JBool True)]]) \<and>
   fst (step1_check inwxToolset (lit ''example.com'') [] \<lparr>domainRegistered = None,
          nameserversConfigured = None, hostingProvisioned = None, ispProvisionResult = None\<rparr> world0) =
     Continues (True, [okStep ''domain_check''
                   (JObj [(lit ''domain'', JStr (lit ''example.com'')), (lit ''available'', JBool True)])])"
proof -
  let ?fs = "[(lit ''domain'', JStr (lit ''example.com'')), (lit ''avail'', JBool True)]"
  let ?gs = "[(lit ''domain'', JStr (lit ''example.com''))]"
  let ?c0 = "\<lparr>domainRegistered = None, nameserversConfigured = None,
               hostingProvisioned = None, ispProvisionResult = None\<rparr>"
  have m1: "map_of ?fs (lit ''avail'') = Some (JBool True)" by (simp add: lit_def)
  have m2: "map_of ?gs (lit ''avail'') = None" by (simp add: lit_def)
  have f: "find (\<lambda>t. name t = lit ''inwx_domain_check'') inwxToolset = Some (checkAvail True)"
    by (simp add: example_defs)
  note t1 = availability_read_from_first_record[of ?fs True "[JObj [(lit ''avail'', JBool False)]]"
      JNull JNull inwxToolset "checkAvail True" "lit ''example.com''" world0
      "JArr [JObj ?fs]" "[]" ?c0]
  note t2 = availability_read_from_first_record[of ?gs True "[]"
      "JStr (lit ''available'')" JNull "[]" "checkAvail True" "lit ''example.com''" world0 JNull "[]" ?c0]
  note t3 = availability_read_from_first_record[of ?fs True "[]"
      JNull JNull "[]" "checkAvail True" "lit ''example.com''" world0 JNull "[]" ?c0]
  note t4 = availability_read_from_first_record[of ?gs True "[JObj [(lit ''avail'', JBool True)]]"
      JNull JNull "[]" "checkAvail True" "lit ''example.com''" world0 JNull "[]" ?c0]
  have r: "fst (run (checkAvail True) (checkArgs (lit ''example.com'')) (remote world0)) = Inr (JArr [JObj ?fs])"
    by (simp add: checkAvail_def mockTool_def)
  have ra: "readAvailability (JArr [JObj ?fs]) = True"
    using t3 m1 by simp
  from t1 m1 f r ra have c1: "readAvailability (JObj ?fs)"
    "readAvailability (JArr [JObj ?fs, JObj [(lit ''avail'', JBool False)]])"
    "fst (step1_check inwxToolset (lit ''example.com'') [] ?c0 world0) =
       Continues (True, [okStep ''domain_check''
                   (JObj [(lit ''domain'', JStr (lit ''example.com'')), (lit ''available'', JBool True)])])"
    by simp_all
  from t2 m2 have c2: "\<not> readAvailability (JObj ?gs)" "\<not> readAvailability (JArr [JObj ?gs])"
    "\<not> readAvailability (JStr (lit ''available''))"
    by simp_all
  from t4 have c3: "\<not> readAvailability (JArr [JNull, JObj [(lit ''avail'', JBool True)]])"
    by simp
  from c1 c2 c3 show ?thesis by simp
qed




section \<open>Claim about the permission guard\<close>

text \<open>
  Claim C9, for the guard as modelled from the spec. If the policy is read-only and
  the operation is classified as a write, the call is rejected with a violation that
  names the operation and the rule \<open>readOnly\<close>. If the allow-list is not empty and
  does not contain the operation's name, the call is rejected with a violation that
  names the rule \<open>allowedOperations\<close>, whatever the classification. A rejection
  does not depend on the underlying operation and leaves the remote state as it was:
  the operation is not invoked. Otherwise the call is forwarded: the outcome and the
  remote state are those of the underlying operation.
\<close>

theorem guard_rejects_before_invocation:
  "(readOnly pol \<and> cls = WriteOp \<longrightarrow>
      (\<exists>v. (\<forall>op. guard pol nm cls op params w = (Inl v, w)) \<and>
            operation v = nm \<and> lit ''readOnly'' \<in> set (violated v))) \<and>
   (allowList pol \<noteq> {} \<and> nm \<notin> allowList pol \<longrightarrow>
      (\<exists>v. (\<forall>op. guard pol nm cls op params w = (Inl v, w)) \<and>
            operation v = nm \<and> lit ''allowedOperations'' \<in> set (violated v))) \<and>
   (\<not> (readOnly pol \<and> cls = WriteOp) \<and> \<not> (allowList pol \<noteq> {} \<and> nm \<notin> allowList pol) \<longrightarrow>
      guard pol nm cls invoke params w = (Inr (fst (invoke params w)), snd (invoke params w)))"
  by (auto simp: guard_def violatedRules_def split: prod.splits)

theorem guard_rejects_before_invocation_witness:
  "guard \<lparr>readOnly = True, allowList = {}\<rparr> (lit ''inwx_domain_register'') WriteOp
      (\<lambda>params calls. (Inr (JObj []), Suc calls)) (JObj []) 0 =
     (Inl \<lparr>operation = lit ''inwx_domain_register'', violated = [lit ''readOnly'']\<rparr>, 0) \<and>
   guard \<lparr>readOnly = False, allowList = {lit ''inwx_account_info''}\<rparr> (lit ''inwx_domain_check'') ReadOp
      (\<lambda>params calls. (Inr (JObj []), Suc calls)) (JObj []) 0 =
     (Inl \<lparr>operation = lit ''inwx_domain_check'', violated = [lit ''allowedOperations'']\<rparr>, 0) \<and>
   guard \<lparr>readOnly = True, allowList = {lit ''inwx_account_info''}\<rparr> (lit ''inwx_account_info'') ReadOp
      (\<lambda>params calls. (Inr (JObj []), Suc calls)) (JObj []) 0 =
     (Inr (Inr (JObj [])), 1)"
proof -
  let ?p1 = "\<lparr>readOnly = True, allowList = {}\<rparr>"
  let ?p2 = "\<lparr>readOnly = False, allowList = {lit ''inwx_account_info''}\<rparr>"
  let ?p3 = "\<lparr>readOnly = True, allowList = {lit ''inwx_account_info''}\<rparr>"
  let ?op = "(\<lambda>params calls. (Inr (JObj []), Suc calls)) :: json \<Rightarrow> nat \<Rightarrow> (thrown + json) \<times> nat"
  from guard_rejects_before_invocation[of ?p1 WriteOp "lit ''inwx_domain_register''" "JObj []" "0::nat"]
  obtain v1 where v1: "\<forall>op. guard ?p1 (lit ''inwx_domain_register'') WriteOp op (JObj []) (0::nat) = (Inl v1, 0)"
    by auto
  from guard_rejects_before_invocation[of ?p2 ReadOp "lit ''inwx_domain_check''" "JObj []" "0::nat"]
  obtain v2 where v2: "\<forall>op. guard ?p2 (lit ''inwx_domain_check'') ReadOp op (JObj []) (0::nat) = (Inl v2, 0)"
    by (auto simp: lit_def)
  from guard_rejects_before_invocation[of ?p3 ReadOp "lit ''inwx_account_info''" "JObj []" "0::nat" ?op]
  have f: "guard ?p3 (lit ''inwx_account_info'') ReadOp ?op (JObj []) 0 = (Inr (Inr (JObj [])), 1)"
    by simp
  have e1: "v1 = \<lparr>operation = lit ''inwx_domain_register'', violated = [lit ''readOnly'']\<rparr>"
    using v1[rule_format, of ?op]
    by (simp add: guard_def violatedRules_def)
  have e2: "v2 = \<lparr>operation = lit ''inwx_domain_check'', violated = [lit ''allowedOperations'']\<rparr>"
    using v2[rule_format, of ?op]
    by (simp add: guard_def violatedRules_def lit_def)
  from v1 v2 e1 e2 f show ?thesis by simp
qed

section \<open>Invariant of the result\<close>

text \<open>
  Claim C10. In every result that \<open>provisionDomainWithHosting\<close> returns: at most one
  step has status \<open>error\<close>; a step with status \<open>error\<close> is the last element of
  \<open>steps\<close>; and \<open>ok\<close> is true if and only if no step has status \<open>error\<close>.
\<close>

theorem error_step_last:
  assumes "provisionDomainWithHosting inwxTools ispTools params st = (Inr r, st')"
  shows "length (filter (\<lambda>x. status x = Error) (steps r)) \<le> 1 \<and>
         (\<forall>k<length (steps r). status (steps r ! k) = Error \<longrightarrow> Suc k = length (steps r)) \<and>
         (ok r \<longleftrightarrow> (\<forall>x\<in>set (steps r). status x \<noteq> Error))"
proof -
  from run_wellformed[OF assms] have
    "(ok r \<and> noError (steps r)) \<or>
     (\<not> ok r \<and> (\<exists>pre e. steps r = pre @ [e] \<and> noError pre \<and> status e = Error))"
    by (simp add: wellformed_def)
  then show ?thesis
  proof
    assume a: "ok r \<and> noError (steps r)"
    then have "\<forall>x\<in>set (steps r). status x \<noteq> Error" by (simp add: noError_def)
    moreover from this have "filter (\<lambda>x. status x = Error) (steps r) = []" by simp
    ultimately show ?thesis using a by auto
  next
    assume "\<not> ok r \<and> (\<exists>pre e. steps r = pre @ [e] \<and> noError pre \<and> status e = Error)"
    then obtain pre e where p: "\<not> ok r" "steps r = pre @ [e]" "noError pre" "status e = Error"
      by (elim exE conjE)
    from p(3) have f: "filter (\<lambda>x. status x = Error) pre = []" by (simp add: noError_def)
    have "\<forall>k<length (steps r). status (steps r ! k) = Error \<longrightarrow> Suc k = length (steps r)"
    proof (intro allI impI)
      fix k assume k: "k < length (steps r)" "status (steps r ! k) = Error"
      show "Suc k = length (steps r)"
      proof (rule ccontr)
        assume "Suc k \<noteq> length (steps r)"
        with k(1) p(2) have "k < length pre" by simp
        with p(2) p(3) k(2) show False by (simp add: nth_append noError_def)
      qed
    qed
    with p f show ?thesis by auto
  qed
qed

theorem error_step_last_witness:
  "map status (steps (projr (fst (provisionDomainWithHosting
          [checkAvail True, failTool ''inwx_domain_register'' ''Insufficient balance'']
          ispToolset baseParams world0)))) = [Ok, Error] \<and>
   length (filter (\<lambda>x. status x = Error) (steps (projr (fst (provisionDomainWithHosting
          [checkAvail True, failTool ''inwx_domain_register'' ''Insufficient balance'']
          ispToolset baseParams world0))))) = 1 \<and>
   \<not> ok (projr (fst (provisionDomainWithHosting
          [checkAvail True, failTool ''inwx_domain_register'' ''Insufficient balance'']
          ispToolset baseParams world0)))"
proof -
  let ?run = "provisionDomainWithHosting
          [checkAvail True, failTool ''inwx_domain_register'' ''Insufficient balance'']
          ispToolset baseParams world0"
  let ?r = "projr (fst ?run)"
  have "fst ?run = Inr ?r" by (simp add: run_defs example_defs)
  then have run: "?run = (Inr ?r, snd ?run)" by (metis prod.collapse)
  have st: "map status (steps ?r) = [Ok, Error]"
    by (simp add: run_defs example_defs)
  from error_step_last[OF run] have
    k: "ok ?r \<longleftrightarrow> (\<forall>x\<in>set (steps ?r). status x \<noteq> Error)"
    and n: "length (filter (\<lambda>x. status x = Error) (steps ?r)) \<le> 1"
    by blast+
  from st obtain a b where ab: "steps ?r = [a, b]" "status a = Ok" "status b = Error"
    by (auto simp: map_eq_Cons_conv)
  with k have "\<not> ok ?r" by simp
  with ab n st show ?thesis by simp
qed

end
